theory Spec2Isabelle
  imports Main "HOL-Library.Word"
begin

unbundle bit_operations_syntax

section \<open>Machine types of the 64-bit target\<close>

text \<open>
  The package is modelled for a target whose pointers are 64 bits wide, where Go's
  \<open>int\<close>, \<open>uint\<close> and \<open>uintptr\<close> are all 64-bit values. An \<open>int\<close> is kept as its
  bit pattern; \<open>sint\<close> reads it as two's complement, so the conversion \<open>uint(i)\<close> of
  the source is the identity on the pattern, and \<open>+\<close> and \<open>-\<close> wrap around as Go's do.
\<close>

type_synonym go_int = "64 word"
type_synonym go_uint = "64 word"
type_synonym uintptr = "64 word"
type_synonym byte = "8 word"

text \<open>The run-time panics the package can raise.\<close>

datatype panic = IndexOutOfRange | MakeSliceLenOutOfRange | GrowSliceLenOutOfRange

section \<open>Constants (bitset.go, lines 7-55)\<close>

definition wordBits :: nat where
  "wordBits = push_bit (unat (drop_bit 63 (NOT (0 :: uintptr)))) 32"

definition wordModMask :: nat where
  "wordModMask = wordBits - 1"

definition wordShift :: nat where
  "wordShift = drop_bit 5 (push_bit 7 1 + wordBits)"

definition byteModMask :: nat where
  "byteModMask = 7"

definition byteShift :: nat where
  "byteShift = 3"

section \<open>Slices\<close>

text \<open>
  The Go runtime refuses every allocation of more than \<open>maxAlloc\<close> bytes; on the 64-bit
  targets the heap addresses have 48 bits and the limit is \<open>2 ^ 48\<close>. The constant
  belongs to the runtime, not to the package.
\<close>

definition maxAlloc :: nat where
  "maxAlloc = 2 ^ 48"

text \<open>
  \<open>make(T, n)\<close> for an \<open>int\<close> length panics (``makeslice: len out of range'') when
  the length is negative or when the size in bytes, the length times the size of an
  element, exceeds \<open>maxAlloc\<close>. The elements are machine words and their size in bytes
  is read off the type. Below the limit the allocation is taken to succeed: a machine
  that runs out of memory is outside the model.
\<close>

definition make_slice :: "go_int \<Rightarrow> panic + ('a :: len) word list" where
  "make_slice n =
     (if n <s 0 \<or> maxAlloc < (LENGTH('a) div 8) * unat n then Inl MakeSliceLenOutOfRange
      else Inr (replicate (unat n) 0))"

text \<open>
  \<open>make(T, n)\<close> for a \<open>uint\<close> length panics when the length is not representable as
  an \<open>int\<close> or when the size in bytes exceeds \<open>maxAlloc\<close>.
\<close>

definition make_slice_uint :: "go_uint \<Rightarrow> panic + ('a :: len) word list" where
  "make_slice_uint n =
     (if 2 ^ 63 \<le> unat n \<or> maxAlloc < (LENGTH('a) div 8) * unat n
      then Inl MakeSliceLenOutOfRange
      else Inr (replicate (unat n) 0))"

text \<open>
  \<open>append(s, t...)\<close> returns the elements of \<open>s\<close> followed by those of \<open>t\<close>. When the
  new length in bytes exceeds \<open>maxAlloc\<close> no array of \<open>s\<close> can hold it, the runtime has
  to grow the array and panics (``growslice: len out of range''). The capacity of a
  slice is not modelled: below the limit \<open>append\<close> is taken to find or obtain the room.
\<close>

definition append_slice :: "('a :: len) word list \<Rightarrow> 'a word list \<Rightarrow> panic + 'a word list" where
  "append_slice s t =
     (if maxAlloc < (LENGTH('a) div 8) * (length s + length t) then Inl GrowSliceLenOutOfRange
      else Inr (s @ t))"

text \<open>\<open>len(s)\<close> as an \<open>int\<close>.\<close>

definition len :: "'a list \<Rightarrow> go_int" where
  "len s = of_nat (length s)"

section \<open>Words (bitset.go, lines 69-126)\<close>

type_synonym Words = "uintptr list"

definition NewWords :: "go_int \<Rightarrow> panic + Words" where
  "NewWords numBits = make_slice (signed_drop_bit wordShift (numBits + of_nat wordModMask))"

definition Words_Get :: "Words \<Rightarrow> go_int \<Rightarrow> panic + bool" where
  "Words_Get w i =
     (let k = unat (drop_bit wordShift i) in
      if k < length w
      then Inr (w ! k AND push_bit (unat (i AND of_nat wordModMask)) 1 \<noteq> 0)
      else Inl IndexOutOfRange)"

definition Words_Set :: "Words \<Rightarrow> go_int \<Rightarrow> panic + Words" where
  "Words_Set w i =
     (let k = unat (drop_bit wordShift i) in
      if k < length w
      then Inr (w[k := w ! k OR push_bit (unat (i AND of_nat wordModMask)) 1])
      else Inl IndexOutOfRange)"

definition Words_Unset :: "Words \<Rightarrow> go_int \<Rightarrow> panic + Words" where
  "Words_Unset w i =
     (let k = unat (drop_bit wordShift i) in
      if k < length w
      then Inr (w[k := w ! k AND NOT (push_bit (unat (i AND of_nat wordModMask)) 1)])
      else Inl IndexOutOfRange)"

definition Words_SetBool :: "Words \<Rightarrow> go_int \<Rightarrow> bool \<Rightarrow> panic + Words" where
  "Words_SetBool w i b = (if b then Words_Set w i else Words_Unset w i)"

definition Words_Grow :: "Words \<Rightarrow> go_int \<Rightarrow> panic + Words" where
  "Words_Grow w numBits =
     (let targetLen = signed_drop_bit wordShift (numBits + of_nat wordModMask);
          missing = targetLen - len w
      in if 0 <s missing \<and> missing \<le>s targetLen
         then (case make_slice missing of Inl e \<Rightarrow> Inl e | Inr z \<Rightarrow> append_slice w z)
         else Inr w)"

section \<open>Bytes (bitset.go, lines 128-189)\<close>

type_synonym Bytes = "byte list"

definition NewBytes :: "go_int \<Rightarrow> panic + Bytes" where
  "NewBytes numBits = make_slice (signed_drop_bit byteShift (numBits + of_nat byteModMask))"

definition Bytes_Get :: "Bytes \<Rightarrow> go_int \<Rightarrow> panic + bool" where
  "Bytes_Get s i =
     (let k = unat (drop_bit byteShift i) in
      if k < length s
      then Inr (s ! k AND push_bit (unat (i AND of_nat byteModMask)) 1 \<noteq> 0)
      else Inl IndexOutOfRange)"

definition Bytes_Set :: "Bytes \<Rightarrow> go_int \<Rightarrow> panic + Bytes" where
  "Bytes_Set s i =
     (let k = unat (drop_bit byteShift i) in
      if k < length s
      then Inr (s[k := s ! k OR push_bit (unat (i AND of_nat byteModMask)) 1])
      else Inl IndexOutOfRange)"

definition Bytes_Unset :: "Bytes \<Rightarrow> go_int \<Rightarrow> panic + Bytes" where
  "Bytes_Unset s i =
     (let k = unat (drop_bit byteShift i) in
      if k < length s
      then Inr (s[k := s ! k AND NOT (push_bit (unat (i AND of_nat byteModMask)) 1)])
      else Inl IndexOutOfRange)"

definition Bytes_SetBool :: "Bytes \<Rightarrow> go_int \<Rightarrow> bool \<Rightarrow> panic + Bytes" where
  "Bytes_SetBool s i b = (if b then Bytes_Set s i else Bytes_Unset s i)"

definition Bytes_Grow :: "Bytes \<Rightarrow> go_int \<Rightarrow> panic + Bytes" where
  "Bytes_Grow s numBits =
     (let targetLen = signed_drop_bit byteShift (numBits + of_nat byteModMask);
          missing = targetLen - len s
      in if 0 <s missing \<and> missing \<le>s targetLen
         then (case make_slice missing of Inl e \<Rightarrow> Inl e | Inr z \<Rightarrow> append_slice s z)
         else Inr s)"

section \<open>Sparse (bitset.go, lines 191-249)\<close>

type_synonym Sparse = "go_int \<rightharpoonup> uintptr"

text \<open>
  A sparse set is a map made with \<open>make\<close>, as the package documents (``New Sparse
  bitsets can be created using the builtin make function''); the nil map, on which an
  assignment panics, is not a value of the model. The keys are \<open>int\<close>s, kept as their
  bit patterns. Reading a Go map at an absent key yields the zero value.
\<close>

definition map_index :: "Sparse \<Rightarrow> go_int \<Rightarrow> uintptr" where
  "map_index s k = (case s k of None \<Rightarrow> 0 | Some v \<Rightarrow> v)"

definition Sparse_Get :: "Sparse \<Rightarrow> go_int \<Rightarrow> bool" where
  "Sparse_Get s i =
     (map_index s (drop_bit wordShift i) AND push_bit (unat (i AND of_nat wordModMask)) 1 \<noteq> 0)"

definition Sparse_Set :: "Sparse \<Rightarrow> go_int \<Rightarrow> Sparse" where
  "Sparse_Set s i =
     (let k = drop_bit wordShift i in
      s(k \<mapsto> map_index s k OR push_bit (unat (i AND of_nat wordModMask)) 1))"

definition Sparse_Unset :: "Sparse \<Rightarrow> go_int \<Rightarrow> Sparse" where
  "Sparse_Unset s i =
     (let wordKey = drop_bit wordShift i in
      case s wordKey of
        None \<Rightarrow> s
      | Some word0 \<Rightarrow>
          (let word1 = word0 AND NOT (push_bit (unat (i AND of_nat wordModMask)) 1) in
           if word1 = 0 then s(wordKey := None) else s(wordKey \<mapsto> word1)))"

definition Sparse_SetBool :: "Sparse \<Rightarrow> go_int \<Rightarrow> bool \<Rightarrow> Sparse" where
  "Sparse_SetBool s i b = (if b then Sparse_Set s i else Sparse_Unset s i)"

text \<open>
  The representation invariant of a sparse set: a word index is a key of the map exactly
  when the word read at that index is not zero.
\<close>

definition Sparse_inv :: "Sparse \<Rightarrow> bool" where
  "Sparse_inv s = (\<forall>k. k \<in> dom s \<longleftrightarrow> map_index s k \<noteq> 0)"

section \<open>The \<open>uint\<close>-indexed revision of Grow (bitset.go, lines 368-374 and 430-436)\<close>

text \<open>
  The source file also holds the revision of the package whose indexes are \<open>uint\<close>.
  Its \<open>Get\<close>, \<open>Set\<close> and \<open>Unset\<close> are those above without the conversion
  \<open>uint(i)\<close>; its \<open>Grow\<close> differs: the arithmetic is unsigned and the only test is
  \<open>missing != 0\<close>.
\<close>

definition Words_Grow_uint :: "Words \<Rightarrow> go_uint \<Rightarrow> panic + Words" where
  "Words_Grow_uint w numBits =
     (let targetLen = drop_bit wordShift (numBits + of_nat wordModMask);
          missing = targetLen - len w
      in if missing \<noteq> 0
         then (case make_slice_uint missing of Inl e \<Rightarrow> Inl e | Inr z \<Rightarrow> append_slice w z)
         else Inr w)"

definition Bytes_Grow_uint :: "Bytes \<Rightarrow> go_uint \<Rightarrow> panic + Bytes" where
  "Bytes_Grow_uint s numBits =
     (let targetLen = drop_bit byteShift (numBits + of_nat byteModMask);
          missing = targetLen - len s
      in if missing \<noteq> 0
         then (case make_slice_uint missing of Inl e \<Rightarrow> Inl e | Inr z \<Rightarrow> append_slice s z)
         else Inr s)"

section \<open>Values of the constants\<close>

lemma wordBits_eq: "wordBits = 64"
  by (simp add: wordBits_def)

lemma maxAlloc_eq: "maxAlloc = 281474976710656"
  by (simp add: maxAlloc_def)

lemma wordModMask_eq: "wordModMask = 63"
  by (simp add: wordModMask_def wordBits_eq)

lemma wordShift_eq: "wordShift = 6"
  by (simp add: wordShift_def wordBits_eq)

section \<open>Bit arithmetic of indexes and masks\<close>

lemma word_offset_eq: "(i :: 64 word) AND of_nat wordModMask = take_bit 6 i"
  by (simp add: wordModMask_eq take_bit_eq_mask mask_eq_exp_minus_1)

lemma byte_offset_eq: "(i :: 64 word) AND of_nat byteModMask = take_bit 3 i"
  by (simp add: byteModMask_def take_bit_eq_mask mask_eq_exp_minus_1)

lemma unat_take_bit_less: "unat (take_bit n (i :: 'a :: len word)) < 2 ^ n"
  by (simp add: unsigned_take_bit_eq)

lemma word_offset_less: "unat ((i :: 64 word) AND of_nat wordModMask) < 64"
  using unat_take_bit_less [of 6 i] by (simp add: word_offset_eq)

lemma byte_offset_less: "unat ((i :: 64 word) AND of_nat byteModMask) < 8"
  using unat_take_bit_less [of 3 i] by (simp add: byte_offset_eq)

lemma bit_single: "bit (push_bit n 1 :: 'a::len word) m \<longleftrightarrow> m = n \<and> n < LENGTH('a)"
  by (auto simp add: bit_simps)

lemma test_iff_bit: "((w :: 'a :: len word) AND push_bit n 1 \<noteq> 0) = bit w n"
  by (simp add: bit_iff_and_push_bit_not_eq_0)

lemma test_after_set:
  "((w OR push_bit n 1) AND push_bit m 1 \<noteq> 0) = 
     (bit (w :: 'a :: len word) m \<or> m = n \<and> n < LENGTH('a))"
  unfolding test_iff_bit bit_or_iff bit_single ..

lemma test_after_unset:
  "((w AND NOT (push_bit n 1)) AND push_bit m 1 \<noteq> 0) = 
     (bit (w :: 'a :: len word) m \<and> m \<noteq> n)"
  unfolding test_iff_bit bit_and_iff bit_not_iff bit_single
  by (auto dest: bit_imp_le_length)

lemma split_index: 
  "drop_bit n (i :: 'a :: len word) = drop_bit n j \<Longrightarrow> take_bit n i = take_bit n j \<Longrightarrow> i = j"
  by (metis bits_ident)

lemma word_index_distinct:
  "(i :: 64 word) \<noteq> j \<Longrightarrow> unat (drop_bit wordShift i) = unat (drop_bit wordShift j) \<Longrightarrow>
   unat (i AND of_nat wordModMask) \<noteq> unat (j AND of_nat wordModMask)"
  by (auto simp add: word_offset_eq wordShift_eq word_unat_eq_iff [symmetric] dest: split_index)

lemma byte_index_distinct:
  "(i :: 64 word) \<noteq> j \<Longrightarrow> unat (drop_bit byteShift i) = unat (drop_bit byteShift j) \<Longrightarrow>
   unat (i AND of_nat byteModMask) \<noteq> unat (j AND of_nat byteModMask)"
  by (auto simp add: byte_offset_eq byteShift_def word_unat_eq_iff [symmetric] dest: split_index)

section \<open>Words: reading and writing single bits\<close>

lemma Words_Set_Inr:
  "unat (drop_bit wordShift i) < length w \<Longrightarrow>
   Words_Set w i = Inr (w[unat (drop_bit wordShift i) :=
      w ! unat (drop_bit wordShift i) OR push_bit (unat (i AND of_nat wordModMask)) 1])"
  by (simp add: Words_Set_def Let_def)

lemma Words_Unset_Inr:
  "unat (drop_bit wordShift i) < length w \<Longrightarrow>
   Words_Unset w i = Inr (w[unat (drop_bit wordShift i) :=
      w ! unat (drop_bit wordShift i) AND NOT (push_bit (unat (i AND of_nat wordModMask)) 1)])"
  by (simp add: Words_Unset_def Let_def)

lemma Words_Get_Inr:
  "unat (drop_bit wordShift i) < length w \<Longrightarrow>
   Words_Get w i = Inr (bit (w ! unat (drop_bit wordShift i)) (unat (i AND of_nat wordModMask)))"
  unfolding Words_Get_def Let_def test_iff_bit by simp

lemma Words_Get_Set_same:
  assumes "unat (drop_bit wordShift i) < length w"
  shows "\<exists>w1. Words_Set w i = Inr w1 \<and> length w1 = length w \<and> Words_Get w1 i = Inr True"
  using assms word_offset_less [of i]
  by (simp add: Words_Set_Inr Words_Get_Inr bit_or_iff bit_single del: push_bit_of_1)

lemma Words_Get_Unset_same:
  assumes "unat (drop_bit wordShift i) < length w"
  shows "\<exists>w1. Words_Unset w i = Inr w1 \<and> length w1 = length w \<and> Words_Get w1 i = Inr False"
  using assms
  by (simp add: Words_Unset_Inr Words_Get_Inr bit_and_iff bit_not_iff bit_single del: push_bit_of_1)

lemma Words_Get_Set_other:
  assumes "i \<noteq> j" "unat (drop_bit wordShift i) < length w" "unat (drop_bit wordShift j) < length w"
  shows "\<exists>w1. Words_Set w i = Inr w1 \<and> Words_Get w1 j = Words_Get w j"
  using assms word_index_distinct [of i j]
  by (auto simp add: Words_Set_Inr Words_Get_Inr nth_list_update bit_or_iff bit_single simp del: push_bit_of_1)

lemma Words_Get_Unset_other:
  assumes "i \<noteq> j" "unat (drop_bit wordShift i) < length w" "unat (drop_bit wordShift j) < length w"
  shows "\<exists>w1. Words_Unset w i = Inr w1 \<and> Words_Get w1 j = Words_Get w j"
  using assms word_index_distinct [of i j]
  by (auto simp add: Words_Unset_Inr Words_Get_Inr nth_list_update bit_and_iff bit_not_iff bit_single simp del: push_bit_of_1 dest: bit_imp_le_length)

lemma Words_Set_twice:
  assumes "unat (drop_bit wordShift i) < length w"
  shows "\<exists>w1. Words_Set w i = Inr w1 \<and> Words_Set w1 i = Inr w1"
  using assms by (simp add: Words_Set_Inr del: push_bit_of_1)

lemma Words_Unset_twice:
  assumes "unat (drop_bit wordShift i) < length w"
  shows "\<exists>w1. Words_Unset w i = Inr w1 \<and> Words_Unset w1 i = Inr w1"
  using assms by (simp add: Words_Unset_Inr del: push_bit_of_1)

section \<open>Bytes: reading and writing single bits\<close>

lemma Bytes_Set_Inr:
  "unat (drop_bit byteShift i) < length s \<Longrightarrow>
   Bytes_Set s i = Inr (s[unat (drop_bit byteShift i) :=
      s ! unat (drop_bit byteShift i) OR push_bit (unat (i AND of_nat byteModMask)) 1])"
  by (simp add: Bytes_Set_def Let_def)

lemma Bytes_Unset_Inr:
  "unat (drop_bit byteShift i) < length s \<Longrightarrow>
   Bytes_Unset s i = Inr (s[unat (drop_bit byteShift i) :=
      s ! unat (drop_bit byteShift i) AND NOT (push_bit (unat (i AND of_nat byteModMask)) 1)])"
  by (simp add: Bytes_Unset_def Let_def)

lemma Bytes_Get_Inr:
  "unat (drop_bit byteShift i) < length s \<Longrightarrow>
   Bytes_Get s i = Inr (bit (s ! unat (drop_bit byteShift i)) (unat (i AND of_nat byteModMask)))"
  unfolding Bytes_Get_def Let_def test_iff_bit by simp

lemma Bytes_Get_Set_same:
  assumes "unat (drop_bit byteShift i) < length s"
  shows "\<exists>s1. Bytes_Set s i = Inr s1 \<and> length s1 = length s \<and> Bytes_Get s1 i = Inr True"
  using assms byte_offset_less [of i]
  by (simp add: Bytes_Set_Inr Bytes_Get_Inr bit_or_iff bit_single del: push_bit_of_1)

lemma Bytes_Get_Unset_same:
  assumes "unat (drop_bit byteShift i) < length s"
  shows "\<exists>s1. Bytes_Unset s i = Inr s1 \<and> length s1 = length s \<and> Bytes_Get s1 i = Inr False"
  using assms
  by (simp add: Bytes_Unset_Inr Bytes_Get_Inr bit_and_iff bit_not_iff bit_single del: push_bit_of_1)

lemma Bytes_Get_Set_other:
  assumes "i \<noteq> j" "unat (drop_bit byteShift i) < length s" "unat (drop_bit byteShift j) < length s"
  shows "\<exists>s1. Bytes_Set s i = Inr s1 \<and> Bytes_Get s1 j = Bytes_Get s j"
  using assms byte_index_distinct [of i j]
  by (auto simp add: Bytes_Set_Inr Bytes_Get_Inr nth_list_update bit_or_iff bit_single simp del: push_bit_of_1)

lemma Bytes_Get_Unset_other:
  assumes "i \<noteq> j" "unat (drop_bit byteShift i) < length s" "unat (drop_bit byteShift j) < length s"
  shows "\<exists>s1. Bytes_Unset s i = Inr s1 \<and> Bytes_Get s1 j = Bytes_Get s j"
  using assms byte_index_distinct [of i j]
  by (auto simp add: Bytes_Unset_Inr Bytes_Get_Inr nth_list_update bit_and_iff bit_not_iff bit_single simp del: push_bit_of_1 dest: bit_imp_le_length)

lemma Bytes_Set_twice:
  assumes "unat (drop_bit byteShift i) < length s"
  shows "\<exists>s1. Bytes_Set s i = Inr s1 \<and> Bytes_Set s1 i = Inr s1"
  using assms by (simp add: Bytes_Set_Inr del: push_bit_of_1)

lemma Bytes_Unset_twice:
  assumes "unat (drop_bit byteShift i) < length s"
  shows "\<exists>s1. Bytes_Unset s i = Inr s1 \<and> Bytes_Unset s1 i = Inr s1"
  using assms by (simp add: Bytes_Unset_Inr del: push_bit_of_1)

section \<open>Sparse: reading and writing single bits\<close>

lemma Sparse_Get_bit:
  "Sparse_Get s i = bit (map_index s (drop_bit wordShift i)) (unat (i AND of_nat wordModMask))"
  unfolding Sparse_Get_def test_iff_bit ..

lemma map_index_upd: "map_index (s(k \<mapsto> v)) k' = (if k' = k then v else map_index s k')"
  by (simp add: map_index_def)

lemma map_index_del: "map_index (s(k := None)) k' = (if k' = k then 0 else map_index s k')"
  by (simp add: map_index_def)

lemma map_index_Some: "s k = Some v \<Longrightarrow> map_index s k = v"
  by (simp add: map_index_def)

lemma map_index_None: "s k = None \<Longrightarrow> map_index s k = 0"
  by (simp add: map_index_def)

lemma Sparse_Get_Set_same: "Sparse_Get (Sparse_Set s i) i"
  using word_offset_less [of i]
  by (simp add: Sparse_Get_bit Sparse_Set_def Let_def map_index_upd bit_or_iff bit_single
      del: push_bit_of_1)

lemma Sparse_Get_Unset_same: "\<not> Sparse_Get (Sparse_Unset s i) i"
proof (cases "s (drop_bit wordShift i)")
  case None
  then show ?thesis
    by (simp add: Sparse_Get_bit Sparse_Unset_def Let_def map_index_None)
next
  case (Some v)
  then show ?thesis
    by (simp add: Sparse_Get_bit Sparse_Unset_def Let_def map_index_upd map_index_del
        bit_and_iff bit_not_iff bit_single del: push_bit_of_1)
qed

lemma Sparse_Get_Set_other:
  assumes "i \<noteq> j"
  shows "Sparse_Get (Sparse_Set s i) j = Sparse_Get s j"
  using assms word_index_distinct [of i j]
  by (auto simp add: Sparse_Get_bit Sparse_Set_def Let_def map_index_upd bit_or_iff bit_single
      simp del: push_bit_of_1)

lemma Sparse_Get_Unset_other:
  assumes "i \<noteq> j"
  shows "Sparse_Get (Sparse_Unset s i) j = Sparse_Get s j"
proof (cases "s (drop_bit wordShift i)")
  case None
  then show ?thesis
    by (simp add: Sparse_Unset_def Let_def)
next
  case (Some v)
  show ?thesis
  proof (cases "drop_bit wordShift j = drop_bit wordShift i")
    case False
    with Some show ?thesis
      by (simp add: Sparse_Get_bit Sparse_Unset_def Let_def map_index_upd map_index_del)
  next
    case True
    with assms word_index_distinct [of i j]
    have off: "unat (j AND of_nat wordModMask) \<noteq> unat (i AND of_nat wordModMask)"
      by auto
    have keep: "bit (v AND NOT (push_bit (unat (i AND of_nat wordModMask)) 1))
                  (unat (j AND of_nat wordModMask)) = bit v (unat (j AND of_nat wordModMask))"
      using off unfolding bit_and_iff bit_not_iff bit_single
      by (auto dest: bit_imp_le_length)
    show ?thesis
    proof (cases "v AND NOT (push_bit (unat (i AND of_nat wordModMask)) 1) = 0")
      case z: True
      from keep z have "\<not> bit v (unat (j AND of_nat wordModMask))"
        by simp
      with Some True z show ?thesis
        by (simp add: Sparse_Get_bit Sparse_Unset_def Let_def map_index_del map_index_Some
            del: push_bit_of_1)
    next
      case nz: False
      with Some True keep show ?thesis
        by (simp add: Sparse_Get_bit Sparse_Unset_def Let_def map_index_upd map_index_Some
            del: push_bit_of_1)
    qed
  qed
qed

lemma Sparse_Set_twice: "Sparse_Set (Sparse_Set s i) i = Sparse_Set s i"
  by (simp add: Sparse_Set_def Let_def map_index_upd del: push_bit_of_1)

lemma Sparse_Unset_twice: "Sparse_Unset (Sparse_Unset s i) i = Sparse_Unset s i"
  by (cases "s (drop_bit wordShift i)")
     (simp_all add: Sparse_Unset_def Let_def del: push_bit_of_1)

section \<open>Sparse: the representation invariant\<close>

lemma Sparse_invI: "(\<And>k v. s k = Some v \<Longrightarrow> v \<noteq> 0) \<Longrightarrow> Sparse_inv s"
  by (auto simp add: Sparse_inv_def map_index_def split: option.splits)

lemma Sparse_invD: "Sparse_inv s \<Longrightarrow> s k = Some v \<Longrightarrow> v \<noteq> 0"
  by (auto simp add: Sparse_inv_def map_index_def split: option.splits)

lemma single_nonzero: "n < LENGTH('a) \<Longrightarrow> (w :: 'a :: len word) OR push_bit n 1 \<noteq> 0"
  by (metis bit_0_eq bit_or_iff bit_single bot_apply bot_bool_def)

lemma Sparse_inv_empty: "Sparse_inv Map.empty"
  by (rule Sparse_invI) simp

lemma word_mask_nonzero:
  "(w :: uintptr) OR push_bit (unat ((i :: go_int) AND of_nat wordModMask)) 1 \<noteq> 0"
  using word_offset_less [of i] by (intro single_nonzero) simp

lemma Sparse_inv_Set: "Sparse_inv s \<Longrightarrow> Sparse_inv (Sparse_Set s i)"
  using word_mask_nonzero [of _ i]
  by (intro Sparse_invI) (auto simp add: Sparse_Set_def Let_def simp del: push_bit_of_1 split: if_splits dest: Sparse_invD)

lemma Sparse_inv_Unset: "Sparse_inv s \<Longrightarrow> Sparse_inv (Sparse_Unset s i)"
  by (intro Sparse_invI)
     (auto simp add: Sparse_Unset_def Let_def simp del: push_bit_of_1
           split: if_splits option.splits dest: Sparse_invD)

lemma Sparse_Unset_absent: "s (drop_bit wordShift i) = None \<Longrightarrow> Sparse_Unset s i = s"
  by (simp add: Sparse_Unset_def)

lemma Sparse_Unset_last:
  "s (drop_bit wordShift i) = Some v \<Longrightarrow>
   v AND NOT (push_bit (unat (i AND of_nat wordModMask)) 1) = 0 \<Longrightarrow>
   Sparse_Unset s i = s(drop_bit wordShift i := None)"
  by (simp add: Sparse_Unset_def del: push_bit_of_1)

lemma Sparse_Unset_more:
  "s (drop_bit wordShift i) = Some v \<Longrightarrow>
   v AND NOT (push_bit (unat (i AND of_nat wordModMask)) 1) \<noteq> 0 \<Longrightarrow>
   Sparse_Unset s i = s(drop_bit wordShift i \<mapsto> v AND NOT (push_bit (unat (i AND of_nat wordModMask)) 1))"
  by (simp add: Sparse_Unset_def del: push_bit_of_1)

text \<open>
  Claim C3. The invariant of a sparse set (a word index is a key exactly when its stored
  word is not zero) holds of the empty map and is kept by \<open>Set\<close>, \<open>Unset\<close> and
  \<open>SetBool\<close>; \<open>Get\<close> only reads the map and returns a boolean, so it leaves the
  map as it is. \<open>Unset\<close> on an absent word returns the map unchanged, and \<open>Unset\<close> of
  the last set bit of a word deletes the key of that word.
\<close>

theorem Sparse_invariant:
  "Sparse_inv Map.empty \<and>
   (Sparse_inv s \<longrightarrow>
      Sparse_inv (Sparse_Set s i) \<and> Sparse_inv (Sparse_Unset s i) \<and>
      Sparse_inv (Sparse_SetBool s i b)) \<and>
   (s (drop_bit wordShift i) = None \<longrightarrow> Sparse_Unset s i = s) \<and>
   (\<forall>v. s (drop_bit wordShift i) = Some v \<and>
        v AND NOT (push_bit (unat (i AND of_nat wordModMask)) 1) = 0 \<longrightarrow>
        Sparse_Unset s i = s(drop_bit wordShift i := None) \<and>
        drop_bit wordShift i \<notin> dom (Sparse_Unset s i))"
proof -
  have "Sparse_inv s \<Longrightarrow> Sparse_inv (Sparse_SetBool s i b)"
    by (simp add: Sparse_SetBool_def Sparse_inv_Set Sparse_inv_Unset)
  moreover have "drop_bit wordShift i \<notin> dom (s(drop_bit wordShift i := None))"
    by simp
  ultimately show ?thesis
    using Sparse_inv_empty Sparse_inv_Set [of s i] Sparse_inv_Unset [of s i]
      Sparse_Unset_absent [of s i] Sparse_Unset_last [of s i]
    by (simp del: push_bit_of_1)
qed

theorem Sparse_invariant_witness:
  "Sparse_inv [0 \<mapsto> 1] \<and> Sparse_inv (Sparse_Set [0 \<mapsto> 1] 0) \<and>
   Sparse_inv (Sparse_Unset [0 \<mapsto> 1] 0) \<and> Sparse_inv (Sparse_SetBool [0 \<mapsto> 1] 0 False) \<and>
   Sparse_Unset [0 \<mapsto> 1] 0 = Map.empty \<and> 0 \<notin> dom (Sparse_Unset [0 \<mapsto> 1] 0) \<and>
   Sparse_Unset Map.empty 70 = Map.empty"
proof -
  have inv: "Sparse_inv [0 \<mapsto> 1]"
    by (rule Sparse_invI) (simp split: if_splits)
  have k: "drop_bit wordShift (0 :: go_int) = 0"
    by simp
  have present: "[0 \<mapsto> 1 :: uintptr] (drop_bit wordShift (0 :: go_int)) = Some (1 :: uintptr) \<and>
      (1 :: uintptr) AND NOT (push_bit (unat ((0 :: go_int) AND of_nat wordModMask)) 1) = 0"
    by simp
  have absent: "(Map.empty :: Sparse) (drop_bit wordShift 70) = None"
    by simp
  from Sparse_invariant [of "[0 \<mapsto> 1]" 0 False] inv present
  have "Sparse_inv (Sparse_Set [0 \<mapsto> 1] 0) \<and>
     Sparse_inv (Sparse_Unset [0 \<mapsto> 1] 0) \<and> Sparse_inv (Sparse_SetBool [0 \<mapsto> 1] 0 False) \<and>
     Sparse_Unset [0 \<mapsto> 1] 0 = Map.empty \<and> 0 \<notin> dom (Sparse_Unset [0 \<mapsto> 1] 0)"
    by (simp del: push_bit_of_1)
  moreover from Sparse_invariant [of Map.empty 70 False] absent
  have "Sparse_Unset Map.empty 70 = Map.empty"
    by simp
  ultimately show ?thesis using inv by blast
qed

section \<open>Index faults, round trips, independence and idempotence\<close>

lemma Words_out_of_range:
  assumes "\<not> unat (drop_bit wordShift i) < length w"
  shows "Words_Get w i = Inl IndexOutOfRange" "Words_Set w i = Inl IndexOutOfRange"
    "Words_Unset w i = Inl IndexOutOfRange" "Words_SetBool w i b = Inl IndexOutOfRange"
  using assms
  by (simp_all add: Words_Get_def Words_Set_def Words_Unset_def Words_SetBool_def Let_def)

lemma Bytes_out_of_range:
  assumes "\<not> unat (drop_bit byteShift i) < length s"
  shows "Bytes_Get s i = Inl IndexOutOfRange" "Bytes_Set s i = Inl IndexOutOfRange"
    "Bytes_Unset s i = Inl IndexOutOfRange" "Bytes_SetBool s i b = Inl IndexOutOfRange"
  using assms
  by (simp_all add: Bytes_Get_def Bytes_Set_def Bytes_Unset_def Bytes_SetBool_def Let_def)

text \<open>
  Claim C4. On the dense variants, every \<open>Get\<close>, \<open>Set\<close>, \<open>Unset\<close> and \<open>SetBool\<close>
  whose word or byte index lies outside the backing storage panics with an index fault:
  no boolean and no updated set is returned.
\<close>

theorem dense_out_of_range_faults:
  "(\<not> unat (drop_bit wordShift i) < length w \<longrightarrow>
      Words_Get w i = Inl IndexOutOfRange \<and> Words_Set w i = Inl IndexOutOfRange \<and>
      Words_Unset w i = Inl IndexOutOfRange \<and> Words_SetBool w i b = Inl IndexOutOfRange) \<and>
   (\<not> unat (drop_bit byteShift i) < length s \<longrightarrow>
      Bytes_Get s i = Inl IndexOutOfRange \<and> Bytes_Set s i = Inl IndexOutOfRange \<and>
      Bytes_Unset s i = Inl IndexOutOfRange \<and> Bytes_SetBool s i b = Inl IndexOutOfRange)"
  using Words_out_of_range [of i w] Bytes_out_of_range [of i s] by blast

theorem dense_out_of_range_faults_witness:
  "\<not> unat (drop_bit wordShift (64 :: go_int)) < length [0 :: uintptr] \<and>
   Words_Get [0] 64 = Inl IndexOutOfRange \<and> Words_Set [0] 64 = Inl IndexOutOfRange \<and>
   Words_Unset [0] 64 = Inl IndexOutOfRange \<and> Words_SetBool [0] 64 True = Inl IndexOutOfRange \<and>
   \<not> unat (drop_bit byteShift (64 :: go_int)) < length [0 :: byte] \<and>
   Bytes_Get [0] 64 = Inl IndexOutOfRange \<and> Bytes_Set [0] 64 = Inl IndexOutOfRange \<and>
   Bytes_Unset [0] 64 = Inl IndexOutOfRange \<and> Bytes_SetBool [0] 64 True = Inl IndexOutOfRange"
proof -
  have w: "\<not> unat (drop_bit wordShift (64 :: go_int)) < length [0 :: uintptr]"
    by (simp add: wordShift_eq drop_bit_eq_div)
  have b: "\<not> unat (drop_bit byteShift (64 :: go_int)) < length [0 :: byte]"
    by (simp add: byteShift_def drop_bit_eq_div)
  from dense_out_of_range_faults [of 64 "[0]" True "[0]"] w b show ?thesis
    by blast
qed

text \<open>
  Claim C5. For every index addressable by the set (for a dense set: the word or byte of
  the index lies inside the storage; for a sparse set: any index), \<open>Get\<close> after \<open>Set\<close>
  is true and \<open>Get\<close> after a following \<open>Unset\<close> is false.
\<close>

theorem set_unset_get_roundtrip:
  "(unat (drop_bit wordShift i) < length w \<longrightarrow>
      (\<exists>w1 w2. Words_Set w i = Inr w1 \<and> Words_Get w1 i = Inr True \<and>
         Words_Unset w1 i = Inr w2 \<and> Words_Get w2 i = Inr False)) \<and>
   (unat (drop_bit byteShift i) < length s \<longrightarrow>
      (\<exists>s1 s2. Bytes_Set s i = Inr s1 \<and> Bytes_Get s1 i = Inr True \<and>
         Bytes_Unset s1 i = Inr s2 \<and> Bytes_Get s2 i = Inr False)) \<and>
   Sparse_Get (Sparse_Set m i) i \<and> \<not> Sparse_Get (Sparse_Unset (Sparse_Set m i) i) i"
proof (intro conjI impI)
  assume a: "unat (drop_bit wordShift i) < length w"
  from Words_Get_Set_same [OF a] obtain w1 where
    w1: "Words_Set w i = Inr w1" "length w1 = length w" "Words_Get w1 i = Inr True"
    by blast
  from a w1(2) have "unat (drop_bit wordShift i) < length w1"
    by simp
  from Words_Get_Unset_same [OF this] w1
  show "\<exists>w1 w2. Words_Set w i = Inr w1 \<and> Words_Get w1 i = Inr True \<and>
         Words_Unset w1 i = Inr w2 \<and> Words_Get w2 i = Inr False"
    by blast
next
  assume a: "unat (drop_bit byteShift i) < length s"
  from Bytes_Get_Set_same [OF a] obtain s1 where
    s1: "Bytes_Set s i = Inr s1" "length s1 = length s" "Bytes_Get s1 i = Inr True"
    by blast
  from a s1(2) have "unat (drop_bit byteShift i) < length s1"
    by simp
  from Bytes_Get_Unset_same [OF this] s1
  show "\<exists>s1 s2. Bytes_Set s i = Inr s1 \<and> Bytes_Get s1 i = Inr True \<and>
         Bytes_Unset s1 i = Inr s2 \<and> Bytes_Get s2 i = Inr False"
    by blast
next
  show "Sparse_Get (Sparse_Set m i) i"
    by (rule Sparse_Get_Set_same)
next
  show "\<not> Sparse_Get (Sparse_Unset (Sparse_Set m i) i) i"
    by (rule Sparse_Get_Unset_same)
qed

theorem set_unset_get_roundtrip_witness:
  "unat (drop_bit wordShift (70 :: go_int)) < length [5, 0 :: uintptr] \<and>
   (\<exists>w1 w2. Words_Set [5, 0] 70 = Inr w1 \<and> Words_Get w1 70 = Inr True \<and>
         Words_Unset w1 70 = Inr w2 \<and> Words_Get w2 70 = Inr False) \<and>
   unat (drop_bit byteShift (9 :: go_int)) < length [5, 0 :: byte] \<and>
   (\<exists>s1 s2. Bytes_Set [5, 0] 9 = Inr s1 \<and> Bytes_Get s1 9 = Inr True \<and>
         Bytes_Unset s1 9 = Inr s2 \<and> Bytes_Get s2 9 = Inr False)"
proof -
  have w: "unat (drop_bit wordShift (70 :: go_int)) < length [5, 0 :: uintptr]"
    by (simp add: wordShift_eq drop_bit_eq_div)
  have b: "unat (drop_bit byteShift (9 :: go_int)) < length [5, 0 :: byte]"
    by (simp add: byteShift_def drop_bit_eq_div)
  from set_unset_get_roundtrip [of 70 "[5, 0]"] w
  have 1: "\<exists>w1 w2. Words_Set [5, 0] 70 = Inr w1 \<and> Words_Get w1 70 = Inr True \<and>
         Words_Unset w1 70 = Inr w2 \<and> Words_Get w2 70 = Inr False"
    by blast
  from set_unset_get_roundtrip [of 9 _ "[5, 0]"] b
  have 2: "\<exists>s1 s2. Bytes_Set [5, 0] 9 = Inr s1 \<and> Bytes_Get s1 9 = Inr True \<and>
         Bytes_Unset s1 9 = Inr s2 \<and> Bytes_Get s2 9 = Inr False"
    by blast
  from w b 1 2 show ?thesis by blast
qed

text \<open>
  Claim C6. For two distinct indexes \<open>i\<close> and \<open>j\<close>, both addressable, \<open>Set\<close> and
  \<open>Unset\<close> at \<open>i\<close> leave the value that \<open>Get\<close> returns at \<open>j\<close> as it was.
\<close>

theorem set_unset_independent:
  "i \<noteq> j \<longrightarrow>
   (unat (drop_bit wordShift i) < length w \<and> unat (drop_bit wordShift j) < length w \<longrightarrow>
      (\<exists>w1. Words_Set w i = Inr w1 \<and> Words_Get w1 j = Words_Get w j) \<and>
      (\<exists>w1. Words_Unset w i = Inr w1 \<and> Words_Get w1 j = Words_Get w j)) \<and>
   (unat (drop_bit byteShift i) < length s \<and> unat (drop_bit byteShift j) < length s \<longrightarrow>
      (\<exists>s1. Bytes_Set s i = Inr s1 \<and> Bytes_Get s1 j = Bytes_Get s j) \<and>
      (\<exists>s1. Bytes_Unset s i = Inr s1 \<and> Bytes_Get s1 j = Bytes_Get s j)) \<and>
   Sparse_Get (Sparse_Set m i) j = Sparse_Get m j \<and>
   Sparse_Get (Sparse_Unset m i) j = Sparse_Get m j"
  using Words_Get_Set_other [of i j w] Words_Get_Unset_other [of i j w]
    Bytes_Get_Set_other [of i j s] Bytes_Get_Unset_other [of i j s]
    Sparse_Get_Set_other [of i j m] Sparse_Get_Unset_other [of i j m]
  by blast

theorem set_unset_independent_witness:
  "(1 :: go_int) \<noteq> 2 \<and>
   unat (drop_bit wordShift (1 :: go_int)) < length [6 :: uintptr] \<and>
   unat (drop_bit wordShift (2 :: go_int)) < length [6 :: uintptr] \<and>
   (\<exists>w1. Words_Set [6] 1 = Inr w1 \<and> Words_Get w1 2 = Words_Get [6] 2) \<and>
   (\<exists>w1. Words_Unset [6] 1 = Inr w1 \<and> Words_Get w1 2 = Words_Get [6] 2) \<and>
   unat (drop_bit byteShift (1 :: go_int)) < length [6 :: byte] \<and>
   unat (drop_bit byteShift (2 :: go_int)) < length [6 :: byte] \<and>
   (\<exists>s1. Bytes_Set [6] 1 = Inr s1 \<and> Bytes_Get s1 2 = Bytes_Get [6] 2) \<and>
   (\<exists>s1. Bytes_Unset [6] 1 = Inr s1 \<and> Bytes_Get s1 2 = Bytes_Get [6] 2) \<and>
   Sparse_Get (Sparse_Set [0 \<mapsto> 6] 1) 2 = Sparse_Get [0 \<mapsto> 6] 2 \<and>
   Sparse_Get (Sparse_Unset [0 \<mapsto> 6] 1) 2 = Sparse_Get [0 \<mapsto> 6] 2"
proof -
  have d: "(1 :: go_int) \<noteq> 2"
    by simp
  have w: "unat (drop_bit wordShift (1 :: go_int)) < length [6 :: uintptr]"
      "unat (drop_bit wordShift (2 :: go_int)) < length [6 :: uintptr]"
    by (simp_all add: wordShift_eq drop_bit_eq_div)
  have b: "unat (drop_bit byteShift (1 :: go_int)) < length [6 :: byte]"
      "unat (drop_bit byteShift (2 :: go_int)) < length [6 :: byte]"
    by (simp_all add: byteShift_def drop_bit_eq_div)
  from set_unset_independent [of 1 2 "[6]" "[6]" "[0 \<mapsto> 6]"] d w b show ?thesis
    by blast
qed

text \<open>
  Claim C10. \<open>Set\<close> and \<open>Unset\<close> are idempotent on every variant: at an addressable
  index, the second of two successive calls returns the state the first one produced.
\<close>

theorem set_unset_idempotent:
  "(unat (drop_bit wordShift i) < length w \<longrightarrow>
      (\<exists>w1. Words_Set w i = Inr w1 \<and> Words_Set w1 i = Inr w1) \<and>
      (\<exists>w1. Words_Unset w i = Inr w1 \<and> Words_Unset w1 i = Inr w1)) \<and>
   (unat (drop_bit byteShift i) < length s \<longrightarrow>
      (\<exists>s1. Bytes_Set s i = Inr s1 \<and> Bytes_Set s1 i = Inr s1) \<and>
      (\<exists>s1. Bytes_Unset s i = Inr s1 \<and> Bytes_Unset s1 i = Inr s1)) \<and>
   Sparse_Set (Sparse_Set m i) i = Sparse_Set m i \<and>
   Sparse_Unset (Sparse_Unset m i) i = Sparse_Unset m i"
  using Words_Set_twice [of i w] Words_Unset_twice [of i w]
    Bytes_Set_twice [of i s] Bytes_Unset_twice [of i s]
    Sparse_Set_twice [of m i] Sparse_Unset_twice [of m i]
  by blast

theorem set_unset_idempotent_witness:
  "unat (drop_bit wordShift (3 :: go_int)) < length [9 :: uintptr] \<and>
   (\<exists>w1. Words_Set [9] 3 = Inr w1 \<and> Words_Set w1 3 = Inr w1) \<and>
   (\<exists>w1. Words_Unset [9] 3 = Inr w1 \<and> Words_Unset w1 3 = Inr w1) \<and>
   unat (drop_bit byteShift (3 :: go_int)) < length [9 :: byte] \<and>
   (\<exists>s1. Bytes_Set [9] 3 = Inr s1 \<and> Bytes_Set s1 3 = Inr s1) \<and>
   (\<exists>s1. Bytes_Unset [9] 3 = Inr s1 \<and> Bytes_Unset s1 3 = Inr s1)"
proof -
  have w: "unat (drop_bit wordShift (3 :: go_int)) < length [9 :: uintptr]"
    by (simp add: wordShift_eq drop_bit_eq_div)
  have b: "unat (drop_bit byteShift (3 :: go_int)) < length [9 :: byte]"
    by (simp add: byteShift_def drop_bit_eq_div)
  from set_unset_idempotent [of 3 "[9]" "[9]"] w b show ?thesis
    by blast
qed

section \<open>Two's complement arithmetic on 64 bits\<close>

lemma wrap_mid:
  fixes z M :: int
  assumes "- M \<le> z" "z < M"
  shows "(z + M) mod (2 * M) - M = z"
  using assms by (simp add: mod_pos_pos_trivial)

lemma wrap_low:
  fixes z M :: int
  assumes "- 3 * M \<le> z" "z < - M"
  shows "(z + M) mod (2 * M) - M = z + 2 * M"
proof -
  have "(z + M) mod (2 * M) = ((z + M) + 2 * M) mod (2 * M)"
    by (simp only: mod_add_self2)
  also have "\<dots> = (z + M) + 2 * M"
    using assms by (intro mod_pos_pos_trivial) simp_all
  finally show ?thesis by simp
qed

lemma wrap_high:
  fixes z M :: int
  assumes "M \<le> z" "z < 3 * M"
  shows "(z + M) mod (2 * M) - M = z - 2 * M"
proof -
  have "z + M = (z - M) + 2 * M"
    by simp
  then have "(z + M) mod (2 * M) = ((z - M) + 2 * M) mod (2 * M)"
    by (rule arg_cong)
  also have "\<dots> = (z - M) mod (2 * M)"
    by (simp only: mod_add_self2)
  also have "\<dots> = z - M"
    using assms by (intro mod_pos_pos_trivial) simp_all
  finally show ?thesis by simp
qed

lemma sint_range64: "- 9223372036854775808 \<le> sint (x :: 64 word) \<and> sint x < 9223372036854775808"
  using sint_ge [of x] sint_lt [of x] by simp

lemma sint_of_int64:
  "sint (word_of_int z :: 64 word) = (z + 9223372036854775808) mod (2 * 9223372036854775808) - 9223372036854775808"
  using int_word_sint [where 'a = 64, of z] by simp

lemma sint_of_int_mid:
  "- 9223372036854775808 \<le> z \<Longrightarrow> z < 9223372036854775808 \<Longrightarrow> sint (word_of_int z :: 64 word) = z"
  unfolding sint_of_int64 by (rule wrap_mid)

lemma sint_of_int_low:
  "- 3 * 9223372036854775808 \<le> z \<Longrightarrow> z < - 9223372036854775808 \<Longrightarrow>
   sint (word_of_int z :: 64 word) = z + 2 * 9223372036854775808"
  unfolding sint_of_int64 by (rule wrap_low)

lemma sint_of_int_high:
  "9223372036854775808 \<le> z \<Longrightarrow> z < 3 * 9223372036854775808 \<Longrightarrow>
   sint (word_of_int z :: 64 word) = z - 2 * 9223372036854775808"
  unfolding sint_of_int64 by (rule wrap_high)

lemma word_add_sint: "(a + b :: 64 word) = word_of_int (sint a + sint b)"
  by simp

lemma word_sub_sint: "(a - b :: 64 word) = word_of_int (sint a - sint b)"
  by simp

lemma sint_len:
  assumes "length xs < 2 ^ 63"
  shows "sint (len xs) = int (length xs)"
proof -
  have "len xs = word_of_int (int (length xs))"
    by (simp add: len_def)
  moreover have "sint (word_of_int (int (length xs)) :: 64 word) = int (length xs)"
    using assms by (intro sint_of_int_mid) simp_all
  ultimately show ?thesis by simp
qed

lemma sint_signed_drop_bit_div: "sint (signed_drop_bit n (x :: 64 word)) = sint x div 2 ^ n"
  by (simp add: sint_signed_drop_bit_eq drop_bit_eq_div)

lemma unat_drop_bit_div: "unat (drop_bit n (x :: 64 word)) = unat x div 2 ^ n"
  by (metis drop_bit_eq_div unat_drop_bit_eq)

lemma uint_range64: "0 \<le> uint (x :: 64 word) \<and> uint x < 2 * 9223372036854775808"
  using uint_lt2p [of x] by simp

lemma sint_nonneg_uint:
  assumes "0 \<le> sint (x :: 64 word)"
  shows "uint x = sint x"
proof (cases "uint x < 9223372036854775808")
  case True
  have "- 9223372036854775808 \<le> (0 :: int)"
    by simp
  also have "0 \<le> uint x"
    by simp
  finally have "sint (word_of_int (uint x) :: 64 word) = uint x"
    using True by (rule sint_of_int_mid)
  then show ?thesis by simp
next
  case False
  then have "sint (word_of_int (uint x) :: 64 word) = uint x - 2 * 9223372036854775808"
    using uint_range64 [of x] by (intro sint_of_int_high) simp_all
  then have "sint x = uint x - 2 * 9223372036854775808"
    by simp
  with assms uint_range64 [of x] show ?thesis by simp
qed

lemma unat_nonneg: "0 \<le> sint (x :: 64 word) \<Longrightarrow> unat x = nat (sint x)"
  using sint_nonneg_uint [of x] by (simp add: unat_eq_nat_uint)

lemma grow_missing:
  fixes T L :: "64 word"
  assumes "0 \<le> sint L" "sint L < sint T"
  shows "sint (T - L) = sint T - sint L"
  unfolding word_sub_sint [of T L]
  using assms sint_range64 [of T] sint_range64 [of L]
  by (intro sint_of_int_mid) simp_all

lemma grow_guard:
  fixes T L :: "64 word"
  assumes "0 \<le> sint L"
  shows "(0 <s T - L \<and> T - L \<le>s T) \<longleftrightarrow> sint L < sint T"
proof (cases "- 9223372036854775808 \<le> sint T - sint L")
  case True
  then have "sint (T - L) = sint T - sint L"
    unfolding word_sub_sint [of T L]
    using assms sint_range64 [of T] by (intro sint_of_int_mid) simp_all
  with assms show ?thesis
    by (simp add: word_sless_alt word_sle_eq)
next
  case False
  then have "sint (T - L) = sint T - sint L + 2 * 9223372036854775808"
    unfolding word_sub_sint [of T L]
    using sint_range64 [of T] sint_range64 [of L] by (intro sint_of_int_low) simp_all
  with False assms sint_range64 [of T] sint_range64 [of L] show ?thesis
    by (simp add: word_sless_alt word_sle_eq)
qed

section \<open>Grow on the \<open>int\<close>-indexed dense sets\<close>

lemma sint_add_mask:
  fixes m :: "64 word"
  assumes "c < 64"
  shows "sint (m + of_nat c) =
     (if sint m + int c < 9223372036854775808 then sint m + int c
      else sint m + int c - 2 * 9223372036854775808)"
proof -
  have c: "sint (of_nat c :: 64 word) = int c"
  proof -
    have "(of_nat c :: 64 word) = word_of_int (int c)"
      by simp
    moreover have "sint (word_of_int (int c) :: 64 word) = int c"
      using assms by (intro sint_of_int_mid) simp_all
    ultimately show ?thesis by simp
  qed
  have eq: "m + of_nat c = word_of_int (sint m + int c)"
    using word_add_sint [of m "of_nat c"] by (simp only: c)
  show ?thesis
  proof (cases "sint m + int c < 9223372036854775808")
    case True
    then have "sint (word_of_int (sint m + int c) :: 64 word) = sint m + int c"
      using sint_range64 [of m] by (intro sint_of_int_mid) simp_all
    with True eq show ?thesis by simp
  next
    case False
    then have "sint (word_of_int (sint m + int c) :: 64 word) =
        sint m + int c - 2 * 9223372036854775808"
      using sint_range64 [of m] assms by (intro sint_of_int_high) simp_all
    with False eq show ?thesis by simp
  qed
qed

lemma Words_targetLen:
  "sint (signed_drop_bit wordShift ((m :: go_int) + of_nat wordModMask)) =
     (if sint m + 63 < 9223372036854775808 then (sint m + 63) div 64
      else (sint m + 63 - 2 * 9223372036854775808) div 64)"
  using sint_add_mask [of 63 m]
  by (simp add: wordShift_eq wordModMask_eq sint_signed_drop_bit_div)

lemma Bytes_targetLen:
  "sint (signed_drop_bit byteShift ((m :: go_int) + of_nat byteModMask)) =
     (if sint m + 7 < 9223372036854775808 then (sint m + 7) div 8
      else (sint m + 7 - 2 * 9223372036854775808) div 8)"
  using sint_add_mask [of 7 m]
  by (simp add: byteShift_def byteModMask_def sint_signed_drop_bit_div)

lemma make_slice_nonneg:
  fixes n :: go_int
  assumes "0 \<le> sint n" "(LENGTH('a) div 8) * nat (sint n) \<le> maxAlloc"
  shows "(make_slice n :: panic + ('a :: len) word list) = Inr (replicate (nat (sint n)) 0)"
  using assms by (simp add: make_slice_def word_sless_alt unat_nonneg)

lemma make_slice_neg:
  "sint n < 0 \<Longrightarrow> make_slice n = Inl MakeSliceLenOutOfRange"
  by (simp add: make_slice_def word_sless_alt)

lemma make_slice_large:
  fixes n :: go_int
  assumes "0 \<le> sint n" "maxAlloc < (LENGTH('a) div 8) * nat (sint n)"
  shows "(make_slice n :: panic + ('a :: len) word list) = Inl MakeSliceLenOutOfRange"
  using assms by (simp add: make_slice_def unat_nonneg)

lemma make_slice_Inr:
  assumes "(make_slice n :: panic + ('a :: len) word list) = Inr z"
  shows "0 \<le> sint n \<and> (LENGTH('a) div 8) * nat (sint n) \<le> maxAlloc \<and>
     z = replicate (nat (sint n)) 0"
proof -
  from assms have nn: "0 \<le> sint n"
    by (cases "sint n < 0") (simp_all add: make_slice_neg)
  with assms show ?thesis
    by (cases "maxAlloc < (LENGTH('a) div 8) * nat (sint n)")
       (simp_all add: make_slice_large make_slice_nonneg)
qed

lemma grow_core:
  fixes T :: "64 word" and w :: "('a :: len) word list"
  assumes "length w < 2 ^ 63"
  shows "(let missing = T - len w
          in if 0 <s missing \<and> missing \<le>s T
             then (case make_slice missing of Inl e \<Rightarrow> Inl e | Inr z \<Rightarrow> append_slice w z)
             else Inr w) =
         (if int (length w) < sint T
          then (if maxAlloc < (LENGTH('a) div 8) * (nat (sint T) - length w)
                then Inl MakeSliceLenOutOfRange
                else if maxAlloc < (LENGTH('a) div 8) * nat (sint T)
                then Inl GrowSliceLenOutOfRange
                else Inr (w @ replicate (nat (sint T) - length w) 0))
          else Inr w)"
proof -
  have L: "sint (len w) = int (length w)"
    using assms by (rule sint_len)
  then have nn: "0 \<le> sint (len w)"
    by simp
  show ?thesis
  proof (cases "int (length w) < sint T")
    case True
    with L have lt: "sint (len w) < sint T"
      by simp
    have d: "sint (T - len w) = sint T - int (length w)"
      using grow_missing [OF nn lt] L by simp
    have n: "nat (sint (T - len w)) = nat (sint T) - length w"
      unfolding d by (simp add: nat_diff_distrib')
    have nn': "0 \<le> sint (T - len w)"
      using d True by simp
    have total: "length w + (nat (sint T) - length w) = nat (sint T)"
      using True by linarith
    from grow_guard [OF nn, of T] L True
    have g: "0 <s T - len w \<and> T - len w \<le>s T"
      by simp
    show ?thesis
    proof (cases "maxAlloc < (LENGTH('a) div 8) * (nat (sint T) - length w)")
      case big: True
      then have "(make_slice (T - len w) :: panic + 'a word list) = Inl MakeSliceLenOutOfRange"
        using nn' n by (intro make_slice_large) simp_all
      with True big g show ?thesis
        by (simp add: Let_def)
    next
      case small: False
      then have "(make_slice (T - len w) :: panic + 'a word list) =
          Inr (replicate (nat (sint T) - length w) 0)"
        using make_slice_nonneg [OF nn', where 'a = 'a] n by simp
      with True small g total show ?thesis
        by (simp add: Let_def append_slice_def)
    qed
  next
    case False
    with grow_guard [OF nn, of T] L
    have "\<not> (0 <s T - len w \<and> T - len w \<le>s T)"
      by simp
    with False show ?thesis
      by (auto simp add: Let_def)
  qed
qed

lemma Words_Grow_eq:
  assumes "length w < 2 ^ 63"
  shows "Words_Grow w m =
     (if int (length w) < sint (signed_drop_bit wordShift (m + of_nat wordModMask))
      then (if maxAlloc < 8 *
               (nat (sint (signed_drop_bit wordShift (m + of_nat wordModMask))) - length w)
            then Inl MakeSliceLenOutOfRange
            else if maxAlloc < 8 * nat (sint (signed_drop_bit wordShift (m + of_nat wordModMask)))
            then Inl GrowSliceLenOutOfRange
            else Inr (w @ replicate
              (nat (sint (signed_drop_bit wordShift (m + of_nat wordModMask))) - length w) 0))
      else Inr w)"
  unfolding Words_Grow_def Let_def
  using grow_core [OF assms, of "signed_drop_bit wordShift (m + of_nat wordModMask)"]
  unfolding Let_def by simp

lemma Bytes_Grow_eq:
  assumes "length s < 2 ^ 63"
  shows "Bytes_Grow s m =
     (if int (length s) < sint (signed_drop_bit byteShift (m + of_nat byteModMask))
      then (if maxAlloc <
               nat (sint (signed_drop_bit byteShift (m + of_nat byteModMask))) - length s
            then Inl MakeSliceLenOutOfRange
            else if maxAlloc < nat (sint (signed_drop_bit byteShift (m + of_nat byteModMask)))
            then Inl GrowSliceLenOutOfRange
            else Inr (s @ replicate
              (nat (sint (signed_drop_bit byteShift (m + of_nat byteModMask))) - length s) 0))
      else Inr s)"
  unfolding Bytes_Grow_def Let_def
  using grow_core [OF assms, of "signed_drop_bit byteShift (m + of_nat byteModMask)"]
  unfolding Let_def by simp

lemma Words_Grow_sufficient:
  assumes "length w < 2 ^ 63" "sint m \<le> 64 * int (length w)"
  shows "Words_Grow w m = Inr w"
proof -
  have "sint (signed_drop_bit wordShift (m + of_nat wordModMask)) \<le> int (length w)"
    unfolding Words_targetLen using assms sint_range64 [of m] by auto
  then show ?thesis
    by (simp add: Words_Grow_eq [OF assms(1)])
qed

lemma Bytes_Grow_sufficient:
  assumes "length s < 2 ^ 63" "sint m \<le> 8 * int (length s)"
  shows "Bytes_Grow s m = Inr s"
proof -
  have "sint (signed_drop_bit byteShift (m + of_nat byteModMask)) \<le> int (length s)"
    unfolding Bytes_targetLen using assms sint_range64 [of m] by auto
  then show ?thesis
    by (simp add: Bytes_Grow_eq [OF assms(1)])
qed

lemma Words_Get_append_old:
  "unat (drop_bit wordShift j) < length w \<Longrightarrow> Words_Get (w @ z) j = Words_Get w j"
  by (simp add: Words_Get_def Let_def nth_append del: push_bit_of_1)

lemma Words_Get_append_new:
  "length w \<le> unat (drop_bit wordShift j) \<Longrightarrow> unat (drop_bit wordShift j) < length w + n \<Longrightarrow>
   Words_Get (w @ replicate n 0) j = Inr False"
  by (simp add: Words_Get_def Let_def nth_append del: push_bit_of_1)

lemma Bytes_Get_append_old:
  "unat (drop_bit byteShift j) < length s \<Longrightarrow> Bytes_Get (s @ z) j = Bytes_Get s j"
  by (simp add: Bytes_Get_def Let_def nth_append del: push_bit_of_1)

lemma Bytes_Get_append_new:
  "length s \<le> unat (drop_bit byteShift j) \<Longrightarrow> unat (drop_bit byteShift j) < length s + n \<Longrightarrow>
   Bytes_Get (s @ replicate n 0) j = Inr False"
  by (simp add: Bytes_Get_def Let_def nth_append del: push_bit_of_1)

lemma word_index_nonneg:
  "0 \<le> sint (j :: go_int) \<Longrightarrow> int (unat (drop_bit wordShift j)) = sint j div 64"
  by (simp add: wordShift_eq unat_drop_bit_div unat_nonneg zdiv_int)

lemma byte_index_nonneg:
  "0 \<le> sint (j :: go_int) \<Longrightarrow> int (unat (drop_bit byteShift j)) = sint j div 8"
  by (simp add: byteShift_def unat_drop_bit_div unat_nonneg zdiv_int)

lemma words_fit_no_overflow:
  fixes x :: int
  assumes "8 * nat ((x + 63) div 64) \<le> maxAlloc"
  shows "x + 63 < 9223372036854775808"
proof (rule ccontr)
  assume "\<not> x + 63 < 9223372036854775808"
  then have "144115188075855872 \<le> (x + 63) div 64"
    by linarith
  then have "144115188075855872 \<le> nat ((x + 63) div 64)"
    by linarith
  with assms show False
    by (simp add: maxAlloc_def)
qed

lemma bytes_fit_no_overflow:
  fixes x :: int
  assumes "nat ((x + 7) div 8) \<le> maxAlloc"
  shows "x + 7 < 9223372036854775808"
proof (rule ccontr)
  assume "\<not> x + 7 < 9223372036854775808"
  then have "1152921504606846976 \<le> (x + 7) div 8"
    by linarith
  then have "1152921504606846976 \<le> nat ((x + 7) div 8)"
    by linarith
  with assms show False
    by (simp add: maxAlloc_def)
qed

lemma Words_Grow_extends:
  assumes cap: "64 * int (length w) < sint m"
    and room: "8 * nat ((sint m + 63) div 64) \<le> maxAlloc"
  shows "\<exists>z. Words_Grow w m = Inr (w @ z) \<and>
      z = replicate (nat ((sint m + 63) div 64) - length w) 0 \<and>
      length w < nat ((sint m + 63) div 64) \<and>
      (\<forall>j. unat (drop_bit wordShift j) < length w \<longrightarrow> Words_Get (w @ z) j = Words_Get w j) \<and>
      (\<forall>j. 64 * int (length w) \<le> sint j \<and> sint j < sint m \<longrightarrow>
           Words_Get (w @ z) j = Inr False)"
proof -
  let ?T = "(sint m + 63) div 64"
  let ?z = "replicate (nat ?T - length w) (0 :: uintptr)"
  have fit: "sint m + 63 < 9223372036854775808"
    using room by (rule words_fit_no_overflow)
  have T: "sint (signed_drop_bit wordShift (m + of_nat wordModMask)) = ?T"
    using fit by (simp add: Words_targetLen)
  have lt: "int (length w) < ?T"
    using cap by linarith
  then have lt': "length w < nat ?T"
    by linarith
  have "int (length w) < 9223372036854775808"
    using cap fit by linarith
  then have "length w < 2 ^ 63"
    by simp
  moreover from room have "\<not> maxAlloc < 8 * (nat ?T - length w)" "\<not> maxAlloc < 8 * nat ?T"
    by linarith+
  ultimately have grow: "Words_Grow w m = Inr (w @ ?z)"
    using Words_Grow_eq [of w m] T lt by simp
  have new: "Words_Get (w @ ?z) j = Inr False"
    if "64 * int (length w) \<le> sint j \<and> sint j < sint m" for j
  proof -
    from that have nn: "0 \<le> sint j"
      by linarith
    have k: "int (unat (drop_bit wordShift j)) = sint j div 64"
      using nn by (rule word_index_nonneg)
    from that have "int (length w) \<le> sint j div 64" "sint j div 64 < ?T"
      by linarith+
    with k have "length w \<le> unat (drop_bit wordShift j)"
        "unat (drop_bit wordShift j) < length w + (nat ?T - length w)"
      by linarith+
    then show ?thesis
      by (rule Words_Get_append_new)
  qed
  from grow lt' new show ?thesis
    by (simp add: Words_Get_append_old)
qed

lemma Bytes_Grow_extends:
  assumes cap: "8 * int (length s) < sint m"
    and room: "nat ((sint m + 7) div 8) \<le> maxAlloc"
  shows "\<exists>z. Bytes_Grow s m = Inr (s @ z) \<and>
      z = replicate (nat ((sint m + 7) div 8) - length s) 0 \<and>
      length s < nat ((sint m + 7) div 8) \<and>
      (\<forall>j. unat (drop_bit byteShift j) < length s \<longrightarrow> Bytes_Get (s @ z) j = Bytes_Get s j) \<and>
      (\<forall>j. 8 * int (length s) \<le> sint j \<and> sint j < sint m \<longrightarrow>
           Bytes_Get (s @ z) j = Inr False)"
proof -
  let ?T = "(sint m + 7) div 8"
  let ?z = "replicate (nat ?T - length s) (0 :: byte)"
  have fit: "sint m + 7 < 9223372036854775808"
    using room by (rule bytes_fit_no_overflow)
  have T: "sint (signed_drop_bit byteShift (m + of_nat byteModMask)) = ?T"
    using fit by (simp add: Bytes_targetLen)
  have lt: "int (length s) < ?T"
    using cap by linarith
  then have lt': "length s < nat ?T"
    by linarith
  have "int (length s) < 9223372036854775808"
    using cap fit by linarith
  then have "length s < 2 ^ 63"
    by simp
  moreover from room have "\<not> maxAlloc < nat ?T - length s" "\<not> maxAlloc < nat ?T"
    by linarith+
  ultimately have grow: "Bytes_Grow s m = Inr (s @ ?z)"
    using Bytes_Grow_eq [of s m] T lt by simp
  have new: "Bytes_Get (s @ ?z) j = Inr False"
    if "8 * int (length s) \<le> sint j \<and> sint j < sint m" for j
  proof -
    from that have nn: "0 \<le> sint j"
      by linarith
    have k: "int (unat (drop_bit byteShift j)) = sint j div 8"
      using nn by (rule byte_index_nonneg)
    from that have "int (length s) \<le> sint j div 8" "sint j div 8 < ?T"
      by linarith+
    with k have "length s \<le> unat (drop_bit byteShift j)"
        "unat (drop_bit byteShift j) < length s + (nat ?T - length s)"
      by linarith+
    then show ?thesis
      by (rule Bytes_Get_append_new)
  qed
  from grow lt' new show ?thesis
    by (simp add: Bytes_Get_append_old)
qed

section \<open>Grow: the claims, and the \<open>uint\<close>-indexed revision\<close>

lemma uint_grow_missing:
  fixes T L :: "64 word"
  assumes "unat T < unat L" "unat L < 2 ^ 63"
  shows "2 ^ 63 \<le> unat (T - L)"
  using assms by (simp add: unat_sub_if')

lemma unat_len: "length w < 2 ^ 63 \<Longrightarrow> unat (len w) = length w"
  using sint_len [of w] unat_nonneg [of "len w"] by simp

lemma grow_uint_wraps:
  fixes T :: "64 word" and w :: "('a :: len) word list"
  assumes "length w < 2 ^ 63" "unat T < length w"
  shows "(let missing = T - len w
          in if missing \<noteq> 0
             then (case make_slice_uint missing of Inl e \<Rightarrow> Inl e | Inr z \<Rightarrow> append_slice w z)
             else Inr w) = Inl MakeSliceLenOutOfRange"
proof -
  have L: "unat (len w) = length w"
    using assms(1) by (rule unat_len)
  with assms have big: "2 ^ 63 \<le> unat (T - len w)"
    by (intro uint_grow_missing) simp_all
  then have "T - len w \<noteq> 0"
    by auto
  moreover from big
  have "(make_slice_uint (T - len w) :: panic + 'a word list) = Inl MakeSliceLenOutOfRange"
    by (simp add: make_slice_uint_def)
  ultimately show ?thesis
    by (simp add: Let_def)
qed

lemma Words_Grow_uint_wraps:
  assumes "length w < 2 ^ 63"
    and "unat (drop_bit wordShift (m + of_nat wordModMask)) < length w"
  shows "Words_Grow_uint w m = Inl MakeSliceLenOutOfRange"
  unfolding Words_Grow_uint_def Let_def
  using grow_uint_wraps [OF assms] unfolding Let_def .

lemma Bytes_Grow_uint_wraps:
  assumes "length s < 2 ^ 63"
    and "unat (drop_bit byteShift (m + of_nat byteModMask)) < length s"
  shows "Bytes_Grow_uint s m = Inl MakeSliceLenOutOfRange"
  unfolding Bytes_Grow_uint_def Let_def
  using grow_uint_wraps [OF assms] unfolding Let_def .

text \<open>
  Claim C2 (amended). When the requested size \<open>m\<close> exceeds the capacity and the storage
  rounded up for \<open>m\<close> is, in bytes, within the allocation limit \<open>maxAlloc\<close> of the
  runtime (which also keeps \<open>m + wordModMask\<close>, for Bytes \<open>m + byteModMask\<close>, from
  overflowing), \<open>Grow\<close> appends exactly the zero words or bytes missing to the
  rounded-up length: the bits addressable before keep their values and the new bits
  below \<open>m\<close> read unset.
\<close>

theorem Grow_appends_zeros:
  "(64 * int (length w) < sint m \<and> 8 * nat ((sint m + 63) div 64) \<le> maxAlloc \<longrightarrow>
     (\<exists>z. Words_Grow w m = Inr (w @ z) \<and>
        z = replicate (nat ((sint m + 63) div 64) - length w) 0 \<and>
        length w < nat ((sint m + 63) div 64) \<and>
        (\<forall>j. unat (drop_bit wordShift j) < length w \<longrightarrow>
             Words_Get (w @ z) j = Words_Get w j) \<and>
        (\<forall>j. 64 * int (length w) \<le> sint j \<and> sint j < sint m \<longrightarrow>
             Words_Get (w @ z) j = Inr False))) \<and>
   (8 * int (length s) < sint m \<and> nat ((sint m + 7) div 8) \<le> maxAlloc \<longrightarrow>
     (\<exists>z. Bytes_Grow s m = Inr (s @ z) \<and>
        z = replicate (nat ((sint m + 7) div 8) - length s) 0 \<and>
        length s < nat ((sint m + 7) div 8) \<and>
        (\<forall>j. unat (drop_bit byteShift j) < length s \<longrightarrow>
             Bytes_Get (s @ z) j = Bytes_Get s j) \<and>
        (\<forall>j. 8 * int (length s) \<le> sint j \<and> sint j < sint m \<longrightarrow>
             Bytes_Get (s @ z) j = Inr False)))"
  using Words_Grow_extends [of w m] Bytes_Grow_extends [of s m] by blast

theorem Grow_appends_zeros_witness:
  "64 * int (length [5 :: uintptr]) < sint (100 :: go_int) \<and>
   8 * nat ((sint (100 :: go_int) + 63) div 64) \<le> maxAlloc \<and>
   Words_Grow [5] 100 = Inr [5, 0] \<and>
   Words_Get [5, 0] 2 = Words_Get [5] 2 \<and> Words_Get [5, 0] 70 = Inr False \<and>
   8 * int (length [5 :: byte]) < sint (20 :: go_int) \<and>
   nat ((sint (20 :: go_int) + 7) div 8) \<le> maxAlloc \<and>
   Bytes_Grow [5] 20 = Inr [5, 0, 0] \<and>
   Bytes_Get [5, 0, 0] 2 = Bytes_Get [5] 2 \<and> Bytes_Get [5, 0, 0] 17 = Inr False"
proof -
  have hw: "64 * int (length [5 :: uintptr]) < sint (100 :: go_int) \<and>
      8 * nat ((sint (100 :: go_int) + 63) div 64) \<le> maxAlloc"
    by (simp add: maxAlloc_def)
  have hb: "8 * int (length [5 :: byte]) < sint (20 :: go_int) \<and>
      nat ((sint (20 :: go_int) + 7) div 8) \<le> maxAlloc"
    by (simp add: maxAlloc_def)
  have jw: "unat (drop_bit wordShift (2 :: go_int)) < length [5 :: uintptr]"
      "64 * int (length [5 :: uintptr]) \<le> sint (70 :: go_int) \<and> sint (70 :: go_int) < sint (100 :: go_int)"
    by (simp_all add: wordShift_eq drop_bit_eq_div)
  have jb: "unat (drop_bit byteShift (2 :: go_int)) < length [5 :: byte]"
      "8 * int (length [5 :: byte]) \<le> sint (17 :: go_int) \<and> sint (17 :: go_int) < sint (20 :: go_int)"
    by (simp_all add: byteShift_def drop_bit_eq_div)
  have zw: "replicate (nat ((sint (100 :: go_int) + 63) div 64) - length [5 :: uintptr]) (0 :: uintptr) = [0]"
    by simp
  have zb: "replicate (nat ((sint (20 :: go_int) + 7) div 8) - length [5 :: byte]) (0 :: byte) = [0, 0]"
    by (simp add: numeral_2_eq_2)
  from Grow_appends_zeros [of "[5]" 100 "[]"] hw jw zw
  have 1: "Words_Grow [5] 100 = Inr [5, 0] \<and>
     Words_Get [5, 0] 2 = Words_Get [5] 2 \<and> Words_Get [5, 0] 70 = Inr False"
    by auto
  from Grow_appends_zeros [of "[]" 20 "[5]"] hb jb zb
  have 2: "Bytes_Grow [5] 20 = Inr [5, 0, 0] \<and>
     Bytes_Get [5, 0, 0] 2 = Bytes_Get [5] 2 \<and> Bytes_Get [5, 0, 0] 17 = Inr False"
    by auto
  from hw hb 1 2 show ?thesis
    by blast
qed

text \<open>
  The bound on \<open>m\<close> cannot be dropped. For the largest \<open>int\<close> the sum
  \<open>numBits + wordModMask\<close> wraps to a negative number, \<open>targetLen\<close> is negative and
  \<open>Grow\<close> returns the empty set as it is, so that bit 0 is still out of range. For
  \<open>m = 2 ^ 51 + 1\<close> nothing overflows, but the zero slice asked of \<open>make\<close> has more than
  \<open>maxAlloc\<close> bytes and \<open>Grow\<close> panics.
\<close>

theorem Grow_overflow_counterexample:
  "64 * int (length ([] :: Words)) < sint (9223372036854775807 :: go_int) \<and>
   Words_Grow [] 9223372036854775807 = Inr [] \<and> Words_Get [] 0 = Inl IndexOutOfRange \<and>
   8 * int (length ([] :: Bytes)) < sint (9223372036854775807 :: go_int) \<and>
   Bytes_Grow [] 9223372036854775807 = Inr [] \<and> Bytes_Get [] 0 = Inl IndexOutOfRange \<and>
   Words_Grow [] 2251799813685249 = Inl MakeSliceLenOutOfRange \<and>
   Bytes_Grow [] 2251799813685249 = Inl MakeSliceLenOutOfRange"
proof -
  have "Words_Grow [] 9223372036854775807 = Inr []"
    by (simp add: Words_Grow_def wordShift_eq wordModMask_eq len_def make_slice_def Let_def
        word_sless_alt word_sle_eq sint_signed_drop_bit_div)
  moreover have "Bytes_Grow [] 9223372036854775807 = Inr []"
    by (simp add: Bytes_Grow_def byteShift_def byteModMask_def len_def make_slice_def Let_def
        word_sless_alt word_sle_eq sint_signed_drop_bit_div)
  moreover have "Words_Grow [] 2251799813685249 = Inl MakeSliceLenOutOfRange"
    by (simp add: Words_Grow_def wordShift_eq wordModMask_eq len_def make_slice_def Let_def
        word_sless_alt word_sle_eq sint_signed_drop_bit_div maxAlloc_def drop_bit_eq_div)
  moreover have "Bytes_Grow [] 2251799813685249 = Inl MakeSliceLenOutOfRange"
    by (simp add: Bytes_Grow_def byteShift_def byteModMask_def len_def make_slice_def Let_def
        word_sless_alt word_sle_eq sint_signed_drop_bit_div maxAlloc_def drop_bit_eq_div)
  ultimately show ?thesis
    by (simp add: Words_Get_def Bytes_Get_def)
qed

text \<open>
  Claim C1. \<open>Grow(m)\<close> on a dense set whose capacity is already at least \<open>m\<close> is meant
  to leave the set as it is. The \<open>int\<close>-indexed \<open>Grow\<close> does so (lemmas
  \<open>Words_Grow_sufficient\<close> and \<open>Bytes_Grow_sufficient\<close>). The \<open>uint\<close>-indexed \<open>Grow\<close>
  does not when the length exceeds the rounded target: the subtraction wraps around,
  \<open>missing\<close> is not zero and \<open>make\<close> panics. It is evaluated here on a two-byte set
  asked to hold 8 bits and on a two-word set asked to hold 64 bits.
\<close>

theorem Grow_uint_sufficient_capacity_panics:
  "Bytes_Grow_uint [0, 0] 8 = Inl MakeSliceLenOutOfRange \<and>
   Words_Grow_uint [0, 0] 64 = Inl MakeSliceLenOutOfRange"
  by (simp add: Bytes_Grow_uint_def Words_Grow_uint_def byteShift_def byteModMask_def
      wordShift_eq wordModMask_eq len_def make_slice_uint_def drop_bit_eq_div
      unsigned_minus_1_eq_mask mask_eq_exp_minus_1 maxAlloc_def)

section \<open>Freshly constructed sets\<close>

lemma NewWords_Inr:
  assumes "NewWords n = Inr w"
  shows "sint n + 63 < 9223372036854775808 \<and> 0 \<le> (sint n + 63) div 64 \<and>
     8 * nat ((sint n + 63) div 64) \<le> maxAlloc \<and>
     w = replicate (nat ((sint n + 63) div 64)) 0"
proof -
  let ?T = "signed_drop_bit wordShift (n + of_nat wordModMask)"
  from assms have "(make_slice ?T :: panic + uintptr list) = Inr w"
    by (simp add: NewWords_def)
  from make_slice_Inr [OF this]
  have nn: "0 \<le> sint ?T" and room: "8 * nat (sint ?T) \<le> maxAlloc"
    and w: "w = replicate (nat (sint ?T)) 0"
    by simp_all
  have fit: "sint n + 63 < 9223372036854775808"
  proof (rule ccontr)
    assume "\<not> sint n + 63 < 9223372036854775808"
    then have "sint ?T = (sint n + 63 - 2 * 9223372036854775808) div 64"
      by (simp add: Words_targetLen)
    moreover have "sint n + 63 - 2 * 9223372036854775808 < 0"
      using sint_range64 [of n] by simp
    ultimately have "sint ?T < 0"
      by (simp only: div_neg_pos_less0 zero_less_numeral)
    with nn show False by simp
  qed
  then have "sint ?T = (sint n + 63) div 64"
    by (simp add: Words_targetLen)
  with nn room w fit show ?thesis by simp
qed

lemma NewWords_succeeds:
  assumes "- 63 \<le> sint n" "8 * nat ((sint n + 63) div 64) \<le> maxAlloc"
  shows "NewWords n = Inr (replicate (nat ((sint n + 63) div 64)) 0)"
proof -
  let ?T = "signed_drop_bit wordShift (n + of_nat wordModMask)"
  have fit: "sint n + 63 < 9223372036854775808"
    using assms(2) by (rule words_fit_no_overflow)
  then have T: "sint ?T = (sint n + 63) div 64"
    by (simp add: Words_targetLen)
  moreover from assms(1) have "0 \<le> (sint n + 63) div 64"
    by simp
  ultimately have "(make_slice ?T :: panic + uintptr list) = Inr (replicate (nat (sint ?T)) 0)"
    using assms(2) by (intro make_slice_nonneg) simp_all
  with T show ?thesis
    by (simp add: NewWords_def)
qed

lemma NewBytes_Inr:
  assumes "NewBytes n = Inr s"
  shows "sint n + 7 < 9223372036854775808 \<and> 0 \<le> (sint n + 7) div 8 \<and>
     nat ((sint n + 7) div 8) \<le> maxAlloc \<and>
     s = replicate (nat ((sint n + 7) div 8)) 0"
proof -
  let ?T = "signed_drop_bit byteShift (n + of_nat byteModMask)"
  from assms have "(make_slice ?T :: panic + byte list) = Inr s"
    by (simp add: NewBytes_def)
  from make_slice_Inr [OF this]
  have nn: "0 \<le> sint ?T" and room: "nat (sint ?T) \<le> maxAlloc"
    and s: "s = replicate (nat (sint ?T)) 0"
    by simp_all
  have fit: "sint n + 7 < 9223372036854775808"
  proof (rule ccontr)
    assume "\<not> sint n + 7 < 9223372036854775808"
    then have "sint ?T = (sint n + 7 - 2 * 9223372036854775808) div 8"
      by (simp add: Bytes_targetLen)
    moreover have "sint n + 7 - 2 * 9223372036854775808 < 0"
      using sint_range64 [of n] by simp
    ultimately have "sint ?T < 0"
      by (simp only: div_neg_pos_less0 zero_less_numeral)
    with nn show False by simp
  qed
  then have "sint ?T = (sint n + 7) div 8"
    by (simp add: Bytes_targetLen)
  with nn room s fit show ?thesis by simp
qed

lemma NewBytes_succeeds:
  assumes "- 7 \<le> sint n" "nat ((sint n + 7) div 8) \<le> maxAlloc"
  shows "NewBytes n = Inr (replicate (nat ((sint n + 7) div 8)) 0)"
proof -
  let ?T = "signed_drop_bit byteShift (n + of_nat byteModMask)"
  have fit: "sint n + 7 < 9223372036854775808"
    using assms(2) by (rule bytes_fit_no_overflow)
  then have T: "sint ?T = (sint n + 7) div 8"
    by (simp add: Bytes_targetLen)
  moreover from assms(1) have "0 \<le> (sint n + 7) div 8"
    by simp
  ultimately have "(make_slice ?T :: panic + byte list) = Inr (replicate (nat (sint ?T)) 0)"
    using assms(2) by (intro make_slice_nonneg) simp_all
  with T show ?thesis
    by (simp add: NewBytes_def)
qed

lemma NewWords_refuses:
  assumes "0 \<le> sint n" "sint n + 63 < 9223372036854775808"
    and "maxAlloc < 8 * nat ((sint n + 63) div 64)"
  shows "NewWords n = Inl MakeSliceLenOutOfRange"
proof -
  let ?T = "signed_drop_bit wordShift (n + of_nat wordModMask)"
  from assms(2) have T: "sint ?T = (sint n + 63) div 64"
    by (simp add: Words_targetLen)
  moreover from assms(1) have "0 \<le> (sint n + 63) div 64"
    by simp
  ultimately have "(make_slice ?T :: panic + uintptr list) = Inl MakeSliceLenOutOfRange"
    using assms(3) by (intro make_slice_large) simp_all
  then show ?thesis
    by (simp add: NewWords_def)
qed

lemma NewBytes_refuses:
  assumes "0 \<le> sint n" "sint n + 7 < 9223372036854775808"
    and "maxAlloc < nat ((sint n + 7) div 8)"
  shows "NewBytes n = Inl MakeSliceLenOutOfRange"
proof -
  let ?T = "signed_drop_bit byteShift (n + of_nat byteModMask)"
  from assms(2) have T: "sint ?T = (sint n + 7) div 8"
    by (simp add: Bytes_targetLen)
  moreover from assms(1) have "0 \<le> (sint n + 7) div 8"
    by simp
  ultimately have "(make_slice ?T :: panic + byte list) = Inl MakeSliceLenOutOfRange"
    using assms(3) by (intro make_slice_large) simp_all
  then show ?thesis
    by (simp add: NewBytes_def)
qed

lemma Words_Get_zeros:
  "unat (drop_bit wordShift i) < k \<Longrightarrow> Words_Get (replicate k 0) i = Inr False"
  by (simp add: Words_Get_def Let_def del: push_bit_of_1)

lemma Bytes_Get_zeros:
  "unat (drop_bit byteShift i) < k \<Longrightarrow> Bytes_Get (replicate k 0) i = Inr False"
  by (simp add: Bytes_Get_def Let_def del: push_bit_of_1)

lemma Sparse_Get_empty: "\<not> Sparse_Get Map.empty i"
  by (simp add: Sparse_Get_def map_index_def)

lemma NewWords_Get:
  assumes "NewWords n = Inr w" "0 \<le> sint i" "sint i < sint n"
  shows "Words_Get w i = Inr False"
proof -
  from NewWords_Inr [OF assms(1)]
  have w: "w = replicate (nat ((sint n + 63) div 64)) 0" and T: "0 \<le> (sint n + 63) div 64"
    by simp_all
  have "int (unat (drop_bit wordShift i)) = sint i div 64"
    using assms(2) by (rule word_index_nonneg)
  moreover from assms have "sint i div 64 < (sint n + 63) div 64"
    by linarith
  ultimately have "unat (drop_bit wordShift i) < nat ((sint n + 63) div 64)"
    by linarith
  then show ?thesis
    unfolding w by (rule Words_Get_zeros)
qed

lemma NewBytes_Get:
  assumes "NewBytes n = Inr s" "0 \<le> sint i" "sint i < sint n"
  shows "Bytes_Get s i = Inr False"
proof -
  from NewBytes_Inr [OF assms(1)]
  have s: "s = replicate (nat ((sint n + 7) div 8)) 0" and T: "0 \<le> (sint n + 7) div 8"
    by simp_all
  have "int (unat (drop_bit byteShift i)) = sint i div 8"
    using assms(2) by (rule byte_index_nonneg)
  moreover from assms have "sint i div 8 < (sint n + 7) div 8"
    by linarith
  ultimately have "unat (drop_bit byteShift i) < nat ((sint n + 7) div 8)"
    by linarith
  then show ?thesis
    unfolding s by (rule Bytes_Get_zeros)
qed

text \<open>
  Claim C7. Every index \<open>i\<close> with \<open>0 \<le> i < n\<close> reads unset in the set that
  \<open>NewWords(n)\<close> or \<open>NewBytes(n)\<close> returns, and every index reads unset in the empty
  sparse set.
\<close>

theorem fresh_sets_read_unset:
  "(NewWords n = Inr w \<and> 0 \<le> sint i \<and> sint i < sint n \<longrightarrow> Words_Get w i = Inr False) \<and>
   (NewBytes n = Inr s \<and> 0 \<le> sint i \<and> sint i < sint n \<longrightarrow> Bytes_Get s i = Inr False) \<and>
   \<not> Sparse_Get Map.empty i"
  using NewWords_Get [of n w i] NewBytes_Get [of n s i] Sparse_Get_empty [of i]
  by simp

theorem fresh_sets_read_unset_witness:
  "NewWords 100 = Inr [0, 0] \<and> 0 \<le> sint (70 :: go_int) \<and>
   sint (70 :: go_int) < sint (100 :: go_int) \<and> Words_Get [0, 0] 70 = Inr False \<and>
   NewBytes 10 = Inr [0, 0] \<and> 0 \<le> sint (9 :: go_int) \<and>
   sint (9 :: go_int) < sint (10 :: go_int) \<and> Bytes_Get [0, 0] 9 = Inr False"
proof -
  have w: "NewWords 100 = Inr [0, 0]"
    using NewWords_succeeds [of 100] by (simp add: numeral_2_eq_2 maxAlloc_eq)
  have b: "NewBytes 10 = Inr [0, 0]"
    using NewBytes_succeeds [of 10] by (simp add: numeral_2_eq_2 maxAlloc_eq)
  have r: "0 \<le> sint (70 :: go_int) \<and> sint (70 :: go_int) < sint (100 :: go_int)"
      "0 \<le> sint (9 :: go_int) \<and> sint (9 :: go_int) < sint (10 :: go_int)"
    by simp_all
  from fresh_sets_read_unset [of 100 "[0, 0]" 70 "[]"] w r
  have 1: "Words_Get [0, 0] 70 = Inr False"
    by blast
  from fresh_sets_read_unset [of 10 "[]" 9 "[0, 0]"] b r
  have 2: "Bytes_Get [0, 0] 9 = Inr False"
    by blast
  from w b r 1 2 show ?thesis
    by blast
qed

section \<open>The byte layout\<close>

lemma byte_index_div: "unat (drop_bit byteShift (i :: go_int)) = unat i div 8"
  by (simp add: byteShift_def unat_drop_bit_div)

lemma byte_offset_mod: "unat ((i :: go_int) AND of_nat byteModMask) = unat i mod 8"
proof -
  have "unat (take_bit 3 i) = take_bit 3 (unat i)"
    by (rule unsigned_take_bit_eq)
  also have "\<dots> = unat i mod 8"
    by (simp add: take_bit_eq_mod)
  finally show ?thesis
    by (simp only: byte_offset_eq)
qed

lemma Bytes_Set_layout:
  assumes "Bytes_Set s i = Inr s1"
  shows "unat i div 8 < length s \<and>
     s1 = s[unat i div 8 := s ! (unat i div 8) OR 2 ^ (unat i mod 8)]"
  using assms
  by (auto simp add: Bytes_Set_def Let_def byte_index_div byte_offset_mod split: if_splits)

lemma Bytes_Get_layout:
  assumes "Bytes_Get s i = Inr b"
  shows "unat i div 8 < length s \<and> b = bit (s ! (unat i div 8)) (unat i mod 8)"
proof -
  from assms have k: "unat (drop_bit byteShift i) < length s"
    by (cases "unat (drop_bit byteShift i) < length s") (simp_all add: Bytes_Get_def Let_def)
  from assms Bytes_Get_Inr [OF k] show ?thesis
    using k by (simp add: byte_index_div byte_offset_mod)
qed

lemma Bytes_layout_scenario:
  "NewBytes 8 = Inr [0] \<and> Bytes_Set [0] 0 = Inr [1] \<and> Bytes_Set [1] 7 = Inr [129]"
  using NewBytes_succeeds [of 8]
  by (simp add: Bytes_Set_def byteShift_def byteModMask_def drop_bit_eq_div maxAlloc_def)

text \<open>
  Claim C8. \<open>Bytes\<close> keeps bit \<open>i\<close> in byte \<open>i / 8\<close> at offset \<open>i mod 8\<close>, counted from
  the least significant bit: \<open>Set\<close> ors \<open>2 ^ (i mod 8)\<close> into that byte and \<open>Get\<close> reads
  that bit. A set made for 8 bits holds the single byte 129 after \<open>Set(0)\<close> and \<open>Set(7)\<close>.
\<close>

theorem Bytes_layout:
  "(Bytes_Set s i = Inr s1 \<longrightarrow>
      unat i div 8 < length s \<and>
      s1 = s[unat i div 8 := s ! (unat i div 8) OR 2 ^ (unat i mod 8)]) \<and>
   (Bytes_Get s i = Inr b \<longrightarrow>
      unat i div 8 < length s \<and> b = bit (s ! (unat i div 8)) (unat i mod 8)) \<and>
   (\<exists>s0 s2. NewBytes 8 = Inr s0 \<and> Bytes_Set s0 0 = Inr s2 \<and> Bytes_Set s2 7 = Inr [129])"
  using Bytes_Set_layout [of s i s1] Bytes_Get_layout [of s i b] Bytes_layout_scenario
  by blast

theorem Bytes_layout_witness:
  "Bytes_Set [1, 0] 12 = Inr [1, 16] \<and> unat (12 :: go_int) div 8 < length [1 :: byte, 0] \<and>
   [1, 16] = [1 :: byte, 0][unat (12 :: go_int) div 8 :=
       [1, 0] ! (unat (12 :: go_int) div 8) OR 2 ^ (unat (12 :: go_int) mod 8)] \<and>
   Bytes_Get [1, 16] 12 = Inr True \<and>
   True = bit ([1 :: byte, 16] ! (unat (12 :: go_int) div 8)) (unat (12 :: go_int) mod 8)"
proof -
  have set: "Bytes_Set [1, 0] 12 = Inr [1, 16]"
    by (simp add: Bytes_Set_def byteShift_def byteModMask_def drop_bit_eq_div)
  have get: "Bytes_Get [1, 16] 12 = Inr True"
    by (simp add: Bytes_Get_def byteShift_def byteModMask_def drop_bit_eq_div)
  from Bytes_layout [of "[1, 0]" 12 "[1, 16]"] set
  have 1: "unat (12 :: go_int) div 8 < length [1 :: byte, 0] \<and>
   [1, 16] = [1 :: byte, 0][unat (12 :: go_int) div 8 :=
       [1, 0] ! (unat (12 :: go_int) div 8) OR 2 ^ (unat (12 :: go_int) mod 8)]"
    by blast
  from Bytes_layout [of "[1, 16]" 12 _ True] get
  have 2: "True = bit ([1 :: byte, 16] ! (unat (12 :: go_int) div 8)) (unat (12 :: go_int) mod 8)"
    by blast
  from set get 1 2 show ?thesis
    by blast
qed

section \<open>One scenario on the three variants\<close>

lemma Words_Set_other:
  assumes "Words_Set w i = Inr w1" "i \<noteq> j" "unat (drop_bit wordShift j) < length w"
  shows "Words_Get w1 j = Words_Get w j"
proof -
  from assms(1) have "unat (drop_bit wordShift i) < length w"
    by (cases "unat (drop_bit wordShift i) < length w") (simp_all add: Words_Set_def Let_def)
  from Words_Get_Set_other [OF assms(2) this assms(3)] assms(1) show ?thesis
    by auto
qed

lemma Words_Unset_other:
  assumes "Words_Unset w i = Inr w1" "i \<noteq> j" "unat (drop_bit wordShift j) < length w"
  shows "Words_Get w1 j = Words_Get w j"
proof -
  from assms(1) have "unat (drop_bit wordShift i) < length w"
    by (cases "unat (drop_bit wordShift i) < length w") (simp_all add: Words_Unset_def Let_def)
  from Words_Get_Unset_other [OF assms(2) this assms(3)] assms(1) show ?thesis
    by auto
qed

lemma Bytes_Set_other:
  assumes "Bytes_Set s i = Inr s1" "i \<noteq> j" "unat (drop_bit byteShift j) < length s"
  shows "Bytes_Get s1 j = Bytes_Get s j"
proof -
  from assms(1) have "unat (drop_bit byteShift i) < length s"
    by (cases "unat (drop_bit byteShift i) < length s") (simp_all add: Bytes_Set_def Let_def)
  from Bytes_Get_Set_other [OF assms(2) this assms(3)] assms(1) show ?thesis
    by auto
qed

lemma Bytes_Unset_other:
  assumes "Bytes_Unset s i = Inr s1" "i \<noteq> j" "unat (drop_bit byteShift j) < length s"
  shows "Bytes_Get s1 j = Bytes_Get s j"
proof -
  from assms(1) have "unat (drop_bit byteShift i) < length s"
    by (cases "unat (drop_bit byteShift i) < length s") (simp_all add: Bytes_Unset_def Let_def)
  from Bytes_Get_Unset_other [OF assms(2) this assms(3)] assms(1) show ?thesis
    by auto
qed

lemma word_index_low:
  assumes "0 \<le> sint (j :: go_int)" "sint j \<le> 63"
  shows "unat (drop_bit wordShift j) = 0"
proof -
  have "int (unat (drop_bit wordShift j)) = sint j div 64"
    using assms(1) by (rule word_index_nonneg)
  moreover from assms have "sint j div 64 = 0"
    by simp
  ultimately show ?thesis by linarith
qed

lemma byte_index_low:
  assumes "0 \<le> sint (j :: go_int)" "sint j \<le> 63"
  shows "unat (drop_bit byteShift j) < 8"
proof -
  have "int (unat (drop_bit byteShift j)) = sint j div 8"
    using assms(1) by (rule byte_index_nonneg)
  with assms show ?thesis by linarith
qed

lemma Words_scenario:
  assumes fresh: "\<And>j. 0 \<le> sint j \<Longrightarrow> sint j \<le> 63 \<Longrightarrow> Words_Get w j = Inr False"
    and len0: "0 < length w"
  shows "\<exists>w1 w2 w3 w4. Words_Set w 0 = Inr w1 \<and> Words_Set w1 7 = Inr w2 \<and>
     Words_Unset w2 0 = Inr w3 \<and> Words_Set w3 63 = Inr w4 \<and>
     (\<forall>j. 0 \<le> sint j \<and> sint j \<le> 63 \<longrightarrow> Words_Get w4 j = Inr (j = 7 \<or> j = 63))"
proof -
  have low: "unat (drop_bit wordShift j) < k" if "0 \<le> sint j" "sint j \<le> 63" "0 < k" for j :: go_int and k
    using word_index_low [OF that(1,2)] that(3) by simp
  have a0: "unat (drop_bit wordShift (0 :: go_int)) < length w"
    using len0 by (intro low) simp_all
  from Words_Get_Set_same [OF a0] obtain w1 where
    w1: "Words_Set w 0 = Inr w1" "length w1 = length w"
    by blast
  have a7: "unat (drop_bit wordShift (7 :: go_int)) < length w1"
    using len0 w1(2) by (intro low) simp_all
  from Words_Get_Set_same [OF a7] obtain w2 where
    w2: "Words_Set w1 7 = Inr w2" "length w2 = length w1" "Words_Get w2 7 = Inr True"
    by blast
  have b0: "unat (drop_bit wordShift (0 :: go_int)) < length w2"
    using len0 w1(2) w2(2) by (intro low) simp_all
  from Words_Get_Unset_same [OF b0] obtain w3 where
    w3: "Words_Unset w2 0 = Inr w3" "length w3 = length w2" "Words_Get w3 0 = Inr False"
    by blast
  have a63: "unat (drop_bit wordShift (63 :: go_int)) < length w3"
    using len0 w1(2) w2(2) w3(2) by (intro low) simp_all
  from Words_Get_Set_same [OF a63] obtain w4 where
    w4: "Words_Set w3 63 = Inr w4" "length w4 = length w3" "Words_Get w4 63 = Inr True"
    by blast
  have "Words_Get w4 j = Inr (j = 7 \<or> j = 63)" if j: "0 \<le> sint j" "sint j \<le> 63" for j :: go_int
  proof -
    have aj: "unat (drop_bit wordShift j) < length w" "unat (drop_bit wordShift j) < length w1"
        "unat (drop_bit wordShift j) < length w2" "unat (drop_bit wordShift j) < length w3"
      using len0 w1(2) w2(2) w3(2) low [OF j] by simp_all
    show ?thesis
    proof (cases "j = 63")
      case True
      with w4(3) show ?thesis by simp
    next
      case n63: False
      then have e4: "Words_Get w4 j = Words_Get w3 j"
        using Words_Set_other [OF w4(1) _ aj(4)] by simp
      show ?thesis
      proof (cases "j = 0")
        case True
        with e4 w3(3) show ?thesis by simp
      next
        case n0: False
        then have e3: "Words_Get w3 j = Words_Get w2 j"
          using Words_Unset_other [OF w3(1) _ aj(3)] by simp
        show ?thesis
        proof (cases "j = 7")
          case True
          with e4 e3 w2(3) show ?thesis by simp
        next
          case n7: False
          then have "Words_Get w2 j = Words_Get w1 j"
            using Words_Set_other [OF w2(1) _ aj(2)] by simp
          moreover have "Words_Get w1 j = Words_Get w j"
            using n0 Words_Set_other [OF w1(1) _ aj(1)] by simp
          ultimately show ?thesis
            using e4 e3 n7 n63 fresh [OF j] by simp
        qed
      qed
    qed
  qed
  with w1(1) w2(1) w3(1) w4(1) show ?thesis
    by blast
qed

lemma Bytes_scenario:
  assumes fresh: "\<And>j. 0 \<le> sint j \<Longrightarrow> sint j \<le> 63 \<Longrightarrow> Bytes_Get s j = Inr False"
    and len8: "8 \<le> length s"
  shows "\<exists>s1 s2 s3 s4. Bytes_Set s 0 = Inr s1 \<and> Bytes_Set s1 7 = Inr s2 \<and>
     Bytes_Unset s2 0 = Inr s3 \<and> Bytes_Set s3 63 = Inr s4 \<and>
     (\<forall>j. 0 \<le> sint j \<and> sint j \<le> 63 \<longrightarrow> Bytes_Get s4 j = Inr (j = 7 \<or> j = 63))"
proof -
  have low: "unat (drop_bit byteShift j) < k"
    if "0 \<le> sint j" "sint j \<le> 63" "8 \<le> k" for j :: go_int and k
    using byte_index_low [OF that(1,2)] that(3) by simp
  have a0: "unat (drop_bit byteShift (0 :: go_int)) < length s"
    using len8 by (intro low) simp_all
  from Bytes_Get_Set_same [OF a0] obtain s1 where
    s1: "Bytes_Set s 0 = Inr s1" "length s1 = length s"
    by blast
  have a7: "unat (drop_bit byteShift (7 :: go_int)) < length s1"
    using len8 s1(2) by (intro low) simp_all
  from Bytes_Get_Set_same [OF a7] obtain s2 where
    s2: "Bytes_Set s1 7 = Inr s2" "length s2 = length s1" "Bytes_Get s2 7 = Inr True"
    by blast
  have b0: "unat (drop_bit byteShift (0 :: go_int)) < length s2"
    using len8 s1(2) s2(2) by (intro low) simp_all
  from Bytes_Get_Unset_same [OF b0] obtain s3 where
    s3: "Bytes_Unset s2 0 = Inr s3" "length s3 = length s2" "Bytes_Get s3 0 = Inr False"
    by blast
  have a63: "unat (drop_bit byteShift (63 :: go_int)) < length s3"
    using len8 s1(2) s2(2) s3(2) by (intro low) simp_all
  from Bytes_Get_Set_same [OF a63] obtain s4 where
    s4: "Bytes_Set s3 63 = Inr s4" "length s4 = length s3" "Bytes_Get s4 63 = Inr True"
    by blast
  have "Bytes_Get s4 j = Inr (j = 7 \<or> j = 63)"
    if j: "0 \<le> sint j" "sint j \<le> 63" for j :: go_int
  proof -
    have aj: "unat (drop_bit byteShift j) < length s" "unat (drop_bit byteShift j) < length s1"
        "unat (drop_bit byteShift j) < length s2" "unat (drop_bit byteShift j) < length s3"
      using len8 s1(2) s2(2) s3(2) low [OF j] by simp_all
    show ?thesis
    proof (cases "j = 63")
      case True
      with s4(3) show ?thesis by simp
    next
      case n63: False
      then have e4: "Bytes_Get s4 j = Bytes_Get s3 j"
        using Bytes_Set_other [OF s4(1) _ aj(4)] by simp
      show ?thesis
      proof (cases "j = 0")
        case True
        with e4 s3(3) show ?thesis by simp
      next
        case n0: False
        then have e3: "Bytes_Get s3 j = Bytes_Get s2 j"
          using Bytes_Unset_other [OF s3(1) _ aj(3)] by simp
        show ?thesis
        proof (cases "j = 7")
          case True
          with e4 e3 s2(3) show ?thesis by simp
        next
          case n7: False
          then have "Bytes_Get s2 j = Bytes_Get s1 j"
            using Bytes_Set_other [OF s2(1) _ aj(2)] by simp
          moreover have "Bytes_Get s1 j = Bytes_Get s j"
            using n0 Bytes_Set_other [OF s1(1) _ aj(1)] by simp
          ultimately show ?thesis
            using e4 e3 n7 n63 fresh [OF j] by simp
        qed
      qed
    qed
  qed
  with s1(1) s2(1) s3(1) s4(1) show ?thesis
    by blast
qed

lemma Sparse_scenario:
  "Sparse_Get (Sparse_Set (Sparse_Unset (Sparse_Set (Sparse_Set Map.empty 0) 7) 0) 63) j
     = (j = 7 \<or> j = 63)"
proof (cases "j = 63")
  case True
  then show ?thesis
    by (simp add: Sparse_Get_Set_same)
next
  case n63: False
  show ?thesis
  proof (cases "j = 0")
    case True
    then show ?thesis
      by (simp add: Sparse_Get_Set_other Sparse_Get_Unset_same)
  next
    case n0: False
    show ?thesis
    proof (cases "j = 7")
      case True
      then show ?thesis
        by (simp add: Sparse_Get_Set_other Sparse_Get_Unset_other Sparse_Get_Set_same)
    next
      case False
      with n0 n63 show ?thesis
        by (simp add: Sparse_Get_Set_other Sparse_Get_Unset_other Sparse_Get_empty)
    qed
  qed
qed

lemma NewWords_zeros: "NewWords n = Inr w \<Longrightarrow> w = replicate (length w) 0"
  using NewWords_Inr [of n w] by simp

lemma NewBytes_zeros: "NewBytes n = Inr s \<Longrightarrow> s = replicate (length s) 0"
  using NewBytes_Inr [of n s] by simp

text \<open>
  Claim C9. Starting from a fresh \<open>Words\<close> set and a fresh \<open>Bytes\<close> set, both long
  enough to hold index 63, and from an empty \<open>Sparse\<close> set, the calls \<open>Set(0)\<close>,
  \<open>Set(7)\<close>, \<open>Unset(0)\<close>, \<open>Set(63)\<close> all succeed, and afterwards the three sets agree
  on every index \<open>j\<close> from 0 to 63: \<open>Get(j)\<close> is true exactly for \<open>j = 7\<close> and
  \<open>j = 63\<close>.
\<close>

theorem three_variants_agree:
  "(NewWords n = Inr w \<and> unat (drop_bit wordShift (63 :: go_int)) < length w \<longrightarrow>
     (\<exists>w1 w2 w3 w4. Words_Set w 0 = Inr w1 \<and> Words_Set w1 7 = Inr w2 \<and>
        Words_Unset w2 0 = Inr w3 \<and> Words_Set w3 63 = Inr w4 \<and>
        (\<forall>j. 0 \<le> sint j \<and> sint j \<le> 63 \<longrightarrow> Words_Get w4 j = Inr (j = 7 \<or> j = 63)))) \<and>
   (NewBytes n = Inr s \<and> unat (drop_bit byteShift (63 :: go_int)) < length s \<longrightarrow>
     (\<exists>s1 s2 s3 s4. Bytes_Set s 0 = Inr s1 \<and> Bytes_Set s1 7 = Inr s2 \<and>
        Bytes_Unset s2 0 = Inr s3 \<and> Bytes_Set s3 63 = Inr s4 \<and>
        (\<forall>j. 0 \<le> sint j \<and> sint j \<le> 63 \<longrightarrow> Bytes_Get s4 j = Inr (j = 7 \<or> j = 63)))) \<and>
   (\<forall>j. 0 \<le> sint j \<and> sint j \<le> 63 \<longrightarrow>
      Sparse_Get (Sparse_Set (Sparse_Unset (Sparse_Set (Sparse_Set Map.empty 0) 7) 0) 63) j
        = (j = 7 \<or> j = 63))"
proof (intro conjI impI allI)
  assume a: "NewWords n = Inr w \<and> unat (drop_bit wordShift (63 :: go_int)) < length w"
  then have len0: "0 < length w"
    by linarith
  from a have z: "w = replicate (length w) 0"
    using NewWords_zeros [of n w] by simp
  have "Words_Get w j = Inr False" if "0 \<le> sint j" "sint j \<le> 63" for j
  proof -
    from word_index_low [OF that] len0 have "unat (drop_bit wordShift j) < length w"
      by simp
    then have "Words_Get (replicate (length w) 0) j = Inr False"
      by (rule Words_Get_zeros)
    with z show ?thesis by simp
  qed
  from this len0
  show "\<exists>w1 w2 w3 w4. Words_Set w 0 = Inr w1 \<and> Words_Set w1 7 = Inr w2 \<and>
        Words_Unset w2 0 = Inr w3 \<and> Words_Set w3 63 = Inr w4 \<and>
        (\<forall>j. 0 \<le> sint j \<and> sint j \<le> 63 \<longrightarrow> Words_Get w4 j = Inr (j = 7 \<or> j = 63))"
    by (rule Words_scenario)
next
  assume a: "NewBytes n = Inr s \<and> unat (drop_bit byteShift (63 :: go_int)) < length s"
  have "unat (drop_bit byteShift (63 :: go_int)) = 7"
    by (simp add: byteShift_def drop_bit_eq_div)
  with a have len8: "8 \<le> length s"
    by linarith
  from a have z: "s = replicate (length s) 0"
    using NewBytes_zeros [of n s] by simp
  have "Bytes_Get s j = Inr False" if "0 \<le> sint j" "sint j \<le> 63" for j
  proof -
    from byte_index_low [OF that] len8 have "unat (drop_bit byteShift j) < length s"
      by simp
    then have "Bytes_Get (replicate (length s) 0) j = Inr False"
      by (rule Bytes_Get_zeros)
    with z show ?thesis by simp
  qed
  from this len8
  show "\<exists>s1 s2 s3 s4. Bytes_Set s 0 = Inr s1 \<and> Bytes_Set s1 7 = Inr s2 \<and>
        Bytes_Unset s2 0 = Inr s3 \<and> Bytes_Set s3 63 = Inr s4 \<and>
        (\<forall>j. 0 \<le> sint j \<and> sint j \<le> 63 \<longrightarrow> Bytes_Get s4 j = Inr (j = 7 \<or> j = 63))"
    by (rule Bytes_scenario)
next
  fix j :: go_int
  show "Sparse_Get (Sparse_Set (Sparse_Unset (Sparse_Set (Sparse_Set Map.empty 0) 7) 0) 63) j
        = (j = 7 \<or> j = 63)"
    by (rule Sparse_scenario)
qed

theorem three_variants_agree_witness:
  "NewWords 64 = Inr [0] \<and> unat (drop_bit wordShift (63 :: go_int)) < length [0 :: uintptr] \<and>
   (\<exists>w1 w2 w3 w4. Words_Set [0] 0 = Inr w1 \<and> Words_Set w1 7 = Inr w2 \<and>
      Words_Unset w2 0 = Inr w3 \<and> Words_Set w3 63 = Inr w4 \<and>
      Words_Get w4 0 = Inr False \<and> Words_Get w4 7 = Inr True \<and>
      Words_Get w4 33 = Inr False \<and> Words_Get w4 63 = Inr True) \<and>
   NewBytes 64 = Inr (replicate 8 0) \<and>
   unat (drop_bit byteShift (63 :: go_int)) < length (replicate 8 (0 :: byte)) \<and>
   (\<exists>s1 s2 s3 s4. Bytes_Set (replicate 8 0) 0 = Inr s1 \<and> Bytes_Set s1 7 = Inr s2 \<and>
      Bytes_Unset s2 0 = Inr s3 \<and> Bytes_Set s3 63 = Inr s4 \<and>
      Bytes_Get s4 0 = Inr False \<and> Bytes_Get s4 7 = Inr True \<and>
      Bytes_Get s4 33 = Inr False \<and> Bytes_Get s4 63 = Inr True) \<and>
   \<not> Sparse_Get (Sparse_Set (Sparse_Unset (Sparse_Set (Sparse_Set Map.empty 0) 7) 0) 63) 0 \<and>
   Sparse_Get (Sparse_Set (Sparse_Unset (Sparse_Set (Sparse_Set Map.empty 0) 7) 0) 63) 7 \<and>
   \<not> Sparse_Get (Sparse_Set (Sparse_Unset (Sparse_Set (Sparse_Set Map.empty 0) 7) 0) 63) 33 \<and>
   Sparse_Get (Sparse_Set (Sparse_Unset (Sparse_Set (Sparse_Set Map.empty 0) 7) 0) 63) 63"
proof -
  have nw: "NewWords 64 = Inr [0]"
    using NewWords_succeeds [of 64] by (simp add: maxAlloc_def)
  have nb: "NewBytes 64 = Inr (replicate 8 0)"
    using NewBytes_succeeds [of 64] by (simp add: maxAlloc_def)
  have aw: "unat (drop_bit wordShift (63 :: go_int)) < length [0 :: uintptr]"
    by (simp add: wordShift_eq drop_bit_eq_div)
  have ab: "unat (drop_bit byteShift (63 :: go_int)) < length (replicate 8 (0 :: byte))"
    by (simp add: byteShift_def drop_bit_eq_div)
  have r: "0 \<le> sint (0 :: go_int) \<and> sint (0 :: go_int) \<le> 63"
      "0 \<le> sint (7 :: go_int) \<and> sint (7 :: go_int) \<le> 63"
      "0 \<le> sint (33 :: go_int) \<and> sint (33 :: go_int) \<le> 63"
      "0 \<le> sint (63 :: go_int) \<and> sint (63 :: go_int) \<le> 63"
    by simp_all
  note agree = three_variants_agree [of 64 "[0]" "replicate 8 0"]
  from agree nw aw obtain w1 w2 w3 w4 where
    w: "Words_Set [0] 0 = Inr w1" "Words_Set w1 7 = Inr w2"
      "Words_Unset w2 0 = Inr w3" "Words_Set w3 63 = Inr w4"
      "\<forall>j. 0 \<le> sint j \<and> sint j \<le> 63 \<longrightarrow> Words_Get w4 j = Inr (j = 7 \<or> j = 63)"
    by blast
  from w(5) r have "Words_Get w4 0 = Inr False" "Words_Get w4 7 = Inr True"
      "Words_Get w4 33 = Inr False" "Words_Get w4 63 = Inr True"
    by simp_all
  with w have 1: "\<exists>w1 w2 w3 w4. Words_Set [0] 0 = Inr w1 \<and> Words_Set w1 7 = Inr w2 \<and>
      Words_Unset w2 0 = Inr w3 \<and> Words_Set w3 63 = Inr w4 \<and>
      Words_Get w4 0 = Inr False \<and> Words_Get w4 7 = Inr True \<and>
      Words_Get w4 33 = Inr False \<and> Words_Get w4 63 = Inr True"
    by blast
  from agree nb ab obtain s1 s2 s3 s4 where
    s: "Bytes_Set (replicate 8 0) 0 = Inr s1" "Bytes_Set s1 7 = Inr s2"
      "Bytes_Unset s2 0 = Inr s3" "Bytes_Set s3 63 = Inr s4"
      "\<forall>j. 0 \<le> sint j \<and> sint j \<le> 63 \<longrightarrow> Bytes_Get s4 j = Inr (j = 7 \<or> j = 63)"
    by blast
  from s(5) r have "Bytes_Get s4 0 = Inr False" "Bytes_Get s4 7 = Inr True"
      "Bytes_Get s4 33 = Inr False" "Bytes_Get s4 63 = Inr True"
    by simp_all
  with s have 2: "\<exists>s1 s2 s3 s4. Bytes_Set (replicate 8 0) 0 = Inr s1 \<and> Bytes_Set s1 7 = Inr s2 \<and>
      Bytes_Unset s2 0 = Inr s3 \<and> Bytes_Set s3 63 = Inr s4 \<and>
      Bytes_Get s4 0 = Inr False \<and> Bytes_Get s4 7 = Inr True \<and>
      Bytes_Get s4 33 = Inr False \<and> Bytes_Get s4 63 = Inr True"
    by blast
  from agree have
    sp: "\<forall>j. 0 \<le> sint j \<and> sint j \<le> 63 \<longrightarrow>
      Sparse_Get (Sparse_Set (Sparse_Unset (Sparse_Set (Sparse_Set Map.empty 0) 7) 0) 63) j
        = (j = 7 \<or> j = 63)"
    by blast
  from sp r have 3:
    "\<not> Sparse_Get (Sparse_Set (Sparse_Unset (Sparse_Set (Sparse_Set Map.empty 0) 7) 0) 63) 0"
    "Sparse_Get (Sparse_Set (Sparse_Unset (Sparse_Set (Sparse_Set Map.empty 0) 7) 0) 63) 7"
    "\<not> Sparse_Get (Sparse_Set (Sparse_Unset (Sparse_Set (Sparse_Set Map.empty 0) 7) 0) 63) 33"
    "Sparse_Get (Sparse_Set (Sparse_Unset (Sparse_Set (Sparse_Set Map.empty 0) 7) 0) 63) 63"
    by simp_all
  from nw nb aw ab 1 2 3 show ?thesis
    by blast
qed

end
